theory Spec2Isabelle
  imports Main "HOL-Library.Sublist"
begin

section \<open>Python values\<close>

text \<open>
  The property bags handled by \<^verbatim>\<open>aws_sqs_queue.py\<close> come from a parsed template: their
  values are \<^verbatim>\<open>None\<close>, booleans, integers, strings, lists and dictionaries with string
  keys. A string is a list of characters, one \<^typ>\<open>char\<close> per code point (code points
  below 256); a dictionary is an association list in insertion order with distinct keys.
  Floating point values are not modelled.
\<close>

datatype pyval =
    PNone
  | PBool bool
  | PInt int
  | PStr string
  | PList "pyval list"
  | PDict "(string \<times> pyval) list"

text \<open>A \<^verbatim>\<open>TypedDict\<close> such as \<^verbatim>\<open>SQSQueueProperties\<close> is a plain dictionary at run time.\<close>

type_synonym props = "string \<rightharpoonup> pyval"

text \<open>
  The exceptions that can leave the provider. \<^verbatim>\<open>KeyError\<close> carries the missing key and
  \<^verbatim>\<open>TypeError\<close> a message; for a \<^verbatim>\<open>TypeError\<close> raised by the interpreter itself the
  message is only a short tag. Errors of the queueing service are kept apart.
\<close>

datatype svc_error = QueueDoesNotExist | OtherServiceError string

datatype error =
    KeyError string
  | TypeError string
  | AssertionError
  | ServiceError svc_error

text \<open>Python's \<^verbatim>\<open>==\<close>: a boolean is an integer (\<^verbatim>\<open>True == 1\<close>), a dictionary is
  compared key by key regardless of order.\<close>

fun py_eq :: "pyval \<Rightarrow> pyval \<Rightarrow> bool"
  and py_eq_list :: "pyval list \<Rightarrow> pyval list \<Rightarrow> bool"
  and py_eq_items :: "(string \<times> pyval) list \<Rightarrow> (string \<times> pyval) list \<Rightarrow> bool"
where
  "py_eq PNone w = (w = PNone)"
| "py_eq (PBool a) w =
     (case w of PBool b \<Rightarrow> a = b | PInt j \<Rightarrow> (if a then 1 else 0) = j | _ \<Rightarrow> False)"
| "py_eq (PInt i) w =
     (case w of PBool b \<Rightarrow> i = (if b then 1 else 0) | PInt j \<Rightarrow> i = j | _ \<Rightarrow> False)"
| "py_eq (PStr s) w = (w = PStr s)"
| "py_eq (PList xs) w = (case w of PList ys \<Rightarrow> py_eq_list xs ys | _ \<Rightarrow> False)"
| "py_eq (PDict xs) w =
     (case w of PDict ys \<Rightarrow> length xs = length ys \<and> py_eq_items xs ys | _ \<Rightarrow> False)"
| "py_eq_list [] ys = (ys = [])"
| "py_eq_list (x # xs) ys =
     (case ys of [] \<Rightarrow> False | y # ys' \<Rightarrow> py_eq x y \<and> py_eq_list xs ys')"
| "py_eq_items [] ys = True"
| "py_eq_items (kv # xs) ys =
     (case map_of ys (fst kv) of
        None \<Rightarrow> False
      | Some w \<Rightarrow> py_eq (snd kv) w \<and> py_eq_items xs ys)"

text \<open>Python's truth value of an object, as tested by \<^verbatim>\<open>if\<close> and \<^verbatim>\<open>not\<close>.\<close>

fun py_truthy :: "pyval \<Rightarrow> bool" where
  "py_truthy PNone = False"
| "py_truthy (PBool b) = b"
| "py_truthy (PInt i) = (i \<noteq> 0)"
| "py_truthy (PStr s) = (s \<noteq> [])"
| "py_truthy (PList xs) = (xs \<noteq> [])"
| "py_truthy (PDict kvs) = (kvs \<noteq> [])"

text \<open>\<^verbatim>\<open>d.get(k, default)\<close> and \<^verbatim>\<open>d[k]\<close> on a property bag.\<close>

definition dict_get :: "props \<Rightarrow> string \<Rightarrow> pyval \<Rightarrow> pyval" where
  "dict_get d k dflt = (case d k of None \<Rightarrow> dflt | Some v \<Rightarrow> v)"

definition dict_item :: "props \<Rightarrow> string \<Rightarrow> error + pyval" where
  "dict_item d k = (case d k of None \<Rightarrow> Inl (KeyError k) | Some v \<Rightarrow> Inr v)"


text \<open>Storing under a key of a dictionary kept in insertion order (\<^verbatim>\<open>d[k] = v\<close>).\<close>

fun dict_store :: "(string \<times> 'v) list \<Rightarrow> string \<Rightarrow> 'v \<Rightarrow> (string \<times> 'v) list" where
  "dict_store [] k v = [(k, v)]"
| "dict_store (kv # d) k v =
     (if fst kv = k then (fst kv, v) # d else kv # dict_store d k v)"

section \<open>Text of values: \<^verbatim>\<open>str\<close>, \<^verbatim>\<open>str.lower\<close> and \<^verbatim>\<open>json.dumps\<close>\<close>

definition digit_char :: "nat \<Rightarrow> char" where
  "digit_char d = ''0123456789abcdef'' ! d"

fun str_nat :: "nat \<Rightarrow> string" where
  "str_nat n = (if n < 10 then [digit_char n] else str_nat (n div 10) @ [digit_char (n mod 10)])"

declare str_nat.simps [simp del]

text \<open>\<^verbatim>\<open>str(v)\<close> of an integer and of a boolean.\<close>

definition str_int :: "int \<Rightarrow> string" where
  "str_int i = (if i < 0 then CHR ''-'' # str_nat (nat (- i)) else str_nat (nat i))"

definition str_bool :: "bool \<Rightarrow> string" where
  "str_bool b = (if b then ''True'' else ''False'')"

text \<open>\<^verbatim>\<open>s.lower()\<close>, on the letters A to Z.\<close>

definition char_lower :: "char \<Rightarrow> char" where
  "char_lower c =
     (case map_of (zip ''ABCDEFGHIJKLMNOPQRSTUVWXYZ'' ''abcdefghijklmnopqrstuvwxyz'') c of
        None \<Rightarrow> c
      | Some l \<Rightarrow> l)"

definition lower :: "string \<Rightarrow> string" where
  "lower s = map char_lower s"

text \<open>
  \<^verbatim>\<open>json.dumps(v)\<close> with its default arguments, as the source calls it: item separator
  \<^verbatim>\<open>", "\<close>, key separator \<^verbatim>\<open>": "\<close>, and \<^verbatim>\<open>ensure_ascii\<close>, under which a string is quoted
  with the two-character escapes for quote, backslash, newline, carriage return, tab,
  backspace and form feed, and \<^verbatim>\<open>\uXXXX\<close> for every other character outside space to tilde.
\<close>

definition escape_char :: "char \<Rightarrow> string" where
  "escape_char c =
     (if c = CHR 0x22 then [CHR 0x5C, CHR 0x22]
      else if c = CHR 0x5C then [CHR 0x5C, CHR 0x5C]
      else if c = CHR 0x0A then [CHR 0x5C, CHR ''n'']
      else if c = CHR 0x0D then [CHR 0x5C, CHR ''r'']
      else if c = CHR 0x09 then [CHR 0x5C, CHR ''t'']
      else if c = CHR 0x08 then [CHR 0x5C, CHR ''b'']
      else if c = CHR 0x0C then [CHR 0x5C, CHR ''f'']
      else if (of_char c :: nat) < 32 \<or> 126 < (of_char c :: nat) then
        [CHR 0x5C, CHR ''u'', CHR ''0'', CHR ''0'',
         digit_char ((of_char c :: nat) div 16), digit_char ((of_char c :: nat) mod 16)]
      else [c])"

definition encode_str :: "string \<Rightarrow> string" where
  "encode_str s = CHR 0x22 # concat (map escape_char s) @ [CHR 0x22]"

fun json_dumps :: "pyval \<Rightarrow> string"
  and dumps_elems :: "pyval list \<Rightarrow> string"
  and dumps_items :: "(string \<times> pyval) list \<Rightarrow> string"
where
  "json_dumps PNone = ''null''"
| "json_dumps (PBool b) = (if b then ''true'' else ''false'')"
| "json_dumps (PInt i) = str_int i"
| "json_dumps (PStr s) = encode_str s"
| "json_dumps (PList xs) = ''['' @ dumps_elems xs @ '']''"
| "json_dumps (PDict kvs) = ''{'' @ dumps_items kvs @ ''}''"
| "dumps_elems [] = []"
| "dumps_elems [x] = json_dumps x"
| "dumps_elems (x # y # ys) = json_dumps x @ '', '' @ dumps_elems (y # ys)"
| "dumps_items [] = []"
| "dumps_items [kv] = encode_str (fst kv) @ '': '' @ json_dumps (snd kv)"
| "dumps_items (kv # kv' # kvs) =
     encode_str (fst kv) @ '': '' @ json_dumps (snd kv) @ '', '' @ dumps_items (kv' # kvs)"

section \<open>The attribute map of \<^verbatim>\<open>CreateQueue\<close>\<close>

definition queue_attribute_list :: "string list" where
  "queue_attribute_list =
     [''ContentBasedDeduplication'',
      ''DeduplicationScope'',
      ''DelaySeconds'',
      ''FifoQueue'',
      ''FifoThroughputLimit'',
      ''KmsDataKeyReusePeriodSeconds'',
      ''KmsMasterKeyId'',
      ''MaximumMessageSize'',
      ''MessageRetentionPeriod'',
      ''ReceiveMessageWaitTimeSeconds'',
      ''RedriveAllowPolicy'',
      ''RedrivePolicy'',
      ''SqsManagedSseEnabled'',
      ''VisibilityTimeout'']"

text \<open>\<^verbatim>\<open>type(v)\<close> as an f-string prints it.\<close>

fun type_repr :: "pyval \<Rightarrow> string" where
  "type_repr PNone = ''<class 'NoneType'>''"
| "type_repr (PBool b) = ''<class 'bool'>''"
| "type_repr (PInt i) = ''<class 'int'>''"
| "type_repr (PStr s) = ''<class 'str'>''"
| "type_repr (PList xs) = ''<class 'list'>''"
| "type_repr (PDict kvs) = ''<class 'dict'>''"

text \<open>
  One pass of the loop body of \<^verbatim>\<open>_compile_sqs_queue_attributes\<close> for the key \<open>k\<close>:
  \<open>Inr None\<close> is \<^verbatim>\<open>continue\<close>, \<open>Inr (Some s)\<close> the string stored under \<open>k\<close>, \<open>Inl\<close> the
  \<^verbatim>\<open>raise\<close>. The tests come in the source's order: \<^verbatim>\<open>None\<close>, \<^verbatim>\<open>str\<close>, \<^verbatim>\<open>bool\<close>, \<^verbatim>\<open>dict\<close>,
  \<^verbatim>\<open>int\<close>.
\<close>

fun convert_attribute :: "string \<Rightarrow> pyval \<Rightarrow> error + string option" where
  "convert_attribute k PNone = Inr None"
| "convert_attribute k (PStr s) = Inr (Some s)"
| "convert_attribute k (PBool b) = Inr (Some (lower (str_bool b)))"
| "convert_attribute k (PDict kvs) = Inr (Some (json_dumps (PDict kvs)))"
| "convert_attribute k (PInt i) = Inr (Some (str_int i))"
| "convert_attribute k v =
     Inl (TypeError (''cannot convert attribute '' @ k @ '', unhandled type '' @ type_repr v))"

fun compile_loop ::
  "props \<Rightarrow> string list \<Rightarrow> (string \<times> string) list \<Rightarrow> error + (string \<times> string) list"
where
  "compile_loop properties [] result = Inr result"
| "compile_loop properties (k # ks) result =
     (case convert_attribute k (dict_get properties k PNone) of
        Inl e \<Rightarrow> Inl e
      | Inr None \<Rightarrow> compile_loop properties ks result
      | Inr (Some v) \<Rightarrow> compile_loop properties ks (dict_store result k v))"

definition compile_sqs_queue_attributes :: "props \<Rightarrow> error + (string \<times> string) list" where
  "compile_sqs_queue_attributes properties = compile_loop properties queue_attribute_list []"

section \<open>The queueing service and the request\<close>

text \<open>
  The service client is outside this file: it is a parameter, four operations over a
  service state \<open>'s\<close>, each returning either a service error or the field of the response
  that the provider reads (\<^verbatim>\<open>["QueueUrl"]\<close>, \<^verbatim>\<open>["Attributes"]["QueueArn"]\<close>). An argument
  of \<^verbatim>\<open>create_queue\<close> that the caller does not pass is \<open>None\<close>.
\<close>

type_synonym attributes = "(string \<times> string) list"
type_synonym tags = "(pyval \<times> pyval) list"

record 's sqs_client =
  create_queue :: "pyval \<Rightarrow> attributes option \<Rightarrow> tags option \<Rightarrow> 's \<Rightarrow> (svc_error + string) \<times> 's"
  get_queue_attributes :: "pyval \<Rightarrow> string list \<Rightarrow> 's \<Rightarrow> (svc_error + string) \<times> 's"
  get_queue_url :: "pyval \<Rightarrow> 's \<Rightarrow> (svc_error + string) \<times> 's"
  delete_queue :: "pyval \<Rightarrow> 's \<Rightarrow> (svc_error + unit) \<times> 's"

text \<open>The calls a provider operation issues are recorded, in order, beside the service state.\<close>

datatype call =
    CreateQueue pyval "attributes option" "tags option"
  | GetQueueAttributes pyval "string list"
  | GetQueueUrl pyval
  | DeleteQueue pyval

type_synonym 's world = "'s \<times> call list"

definition call_create_queue ::
  "'s sqs_client \<Rightarrow> pyval \<Rightarrow> attributes option \<Rightarrow> tags option \<Rightarrow> 's world
     \<Rightarrow> (svc_error + string) \<times> 's world"
where
  "call_create_queue c name attrs tgs w =
     (case create_queue c name attrs tgs (fst w) of
        (r, s') \<Rightarrow> (r, (s', snd w @ [CreateQueue name attrs tgs])))"

definition call_get_queue_attributes ::
  "'s sqs_client \<Rightarrow> pyval \<Rightarrow> string list \<Rightarrow> 's world \<Rightarrow> (svc_error + string) \<times> 's world"
where
  "call_get_queue_attributes c url names w =
     (case get_queue_attributes c url names (fst w) of
        (r, s') \<Rightarrow> (r, (s', snd w @ [GetQueueAttributes url names])))"

definition call_get_queue_url ::
  "'s sqs_client \<Rightarrow> pyval \<Rightarrow> 's world \<Rightarrow> (svc_error + string) \<times> 's world"
where
  "call_get_queue_url c name w =
     (case get_queue_url c name (fst w) of
        (r, s') \<Rightarrow> (r, (s', snd w @ [GetQueueUrl name])))"

definition call_delete_queue ::
  "'s sqs_client \<Rightarrow> pyval \<Rightarrow> 's world \<Rightarrow> (svc_error + unit) \<times> 's world"
where
  "call_delete_queue c url w =
     (case delete_queue c url (fst w) of
        (r, s') \<Rightarrow> (r, (s', snd w @ [DeleteQueue url])))"

record ('s, 'c) resource_request =
  desired_state :: props
  previous_state :: "props option"
  stack_name :: string
  logical_resource_id :: string
  custom_context :: 'c
  sqs :: "'s sqs_client"

datatype operation_status = SUCCESS | FAILED | IN_PROGRESS

text \<open>A \<^verbatim>\<open>ProgressEvent\<close>; its context is \<open>None\<close> where the source does not pass one.\<close>

datatype 'c progress_event =
  ProgressEvent (status: operation_status) (resource_model: props) (event_context: "'c option")

section \<open>Default queue names\<close>

text \<open>
  Modelled from the spec: \<^verbatim>\<open>util.generate_default_name\<close> is defined in
  \<^verbatim>\<open>localstack.services.cloudformation.provider_utils\<close>, which is not among the sources.
  The spec has the default name derived from the stack name and the logical resource id
  and ending in a generated suffix. The helper joins, with hyphens, the stack name cut to
  what is left of 63 characters, the logical id cut to 24 characters, and a random id
  that it draws at every call (\<^verbatim>\<open>short_uid()\<close>, eight hexadecimal characters). The random
  id is an argument here: one value of it is one call of the helper. With an id of eight
  characters the bound of the stack name's slice is at least 29, never negative.
\<close>

definition is_short_uid :: "string \<Rightarrow> bool" where
  "is_short_uid uid = (length uid = 8 \<and> set uid \<subseteq> set ''0123456789abcdef'')"

definition generate_default_name :: "string \<Rightarrow> string \<Rightarrow> string \<Rightarrow> string" where
  "generate_default_name random_id_part stack lid =
     (let resource_id_part = take 24 lid;
          stack_name_part =
            take (63 - 2 - (length random_id_part + length resource_id_part)) stack
      in stack_name_part @ ''-'' @ resource_id_part @ ''-'' @ random_id_part)"

text \<open>
  \<^verbatim>\<open>create\<close> and \<^verbatim>\<open>update\<close> call the helper once; \<open>gen\<close> below is the helper as it answers
  in that call, \<open>generate_default_name uid\<close> for the id \<open>uid\<close> drawn there.

  The name both derive from it: for a queue whose \<^verbatim>\<open>FifoQueue\<close> is true the slice \<^verbatim>\<open>[:-5]\<close>
  of the generated name followed by \<^verbatim>\<open>.fifo\<close>.
\<close>

definition default_queue_name ::
  "(string \<Rightarrow> string \<Rightarrow> string) \<Rightarrow> string \<Rightarrow> string \<Rightarrow> pyval \<Rightarrow> string"
where
  "default_queue_name gen stack lid fifo =
     (if py_truthy fifo then
        (let queue_name = take (length (gen stack lid) - 5) (gen stack lid)
         in queue_name @ ''.fifo'')
      else gen stack lid)"

section \<open>\<^verbatim>\<open>create\<close>\<close>

text \<open>Iterating over a value, subscripting it with a string, and using it as a dictionary
  key, as the comprehension over \<^verbatim>\<open>Tags\<close> does.\<close>

fun py_iter :: "pyval \<Rightarrow> error + pyval list" where
  "py_iter (PList xs) = Inr xs"
| "py_iter (PDict kvs) = Inr (map (\<lambda>kv. PStr (fst kv)) kvs)"
| "py_iter (PStr s) = Inr (map (\<lambda>c. PStr [c]) s)"
| "py_iter v = Inl (TypeError ''not iterable'')"

fun py_getitem :: "pyval \<Rightarrow> string \<Rightarrow> error + pyval" where
  "py_getitem (PDict kvs) k =
     (case map_of kvs k of None \<Rightarrow> Inl (KeyError k) | Some v \<Rightarrow> Inr v)"
| "py_getitem v k = Inl (TypeError ''not subscriptable by str'')"

fun py_hashable :: "pyval \<Rightarrow> bool" where
  "py_hashable (PList xs) = False"
| "py_hashable (PDict kvs) = False"
| "py_hashable v = True"

fun tags_store :: "tags \<Rightarrow> pyval \<Rightarrow> pyval \<Rightarrow> tags" where
  "tags_store [] k v = [(k, v)]"
| "tags_store (kv # d) k v =
     (if py_eq (fst kv) k then (fst kv, v) # d else kv # tags_store d k v)"

text \<open>\<^verbatim>\<open>{t["Key"]: t["Value"] for t in ts}\<close>: key, then value, then the store.\<close>

fun tags_loop :: "pyval list \<Rightarrow> tags \<Rightarrow> error + tags" where
  "tags_loop [] acc = Inr acc"
| "tags_loop (t # ts) acc =
     (case py_getitem t ''Key'' of
        Inl e \<Rightarrow> Inl e
      | Inr k \<Rightarrow>
          (case py_getitem t ''Value'' of
             Inl e \<Rightarrow> Inl e
           | Inr v \<Rightarrow>
               if py_hashable k then tags_loop ts (tags_store acc k v)
               else Inl (TypeError ''unhashable type'')))"

definition compile_tags :: "props \<Rightarrow> error + tags" where
  "compile_tags model =
     (case py_iter (dict_get model ''Tags'' (PList [])) of
        Inl e \<Rightarrow> Inl e
      | Inr ts \<Rightarrow> tags_loop ts [])"

text \<open>The model as \<^verbatim>\<open>create\<close> has it when it compiles the attributes: lines 96 to 114.\<close>

definition create_model :: "(string \<Rightarrow> string \<Rightarrow> string) \<Rightarrow> ('s, 'c) resource_request \<Rightarrow> props" where
  "create_model gen request =
     (let model = desired_state request;
          model = (if py_truthy (dict_get model ''FifoQueue'' (PBool False))
                   then model(''FifoQueue'' := model ''FifoQueue'') else model);
          queue_name = dict_get model ''QueueName'' PNone
      in if \<not> py_truthy queue_name then
           model(''QueueName'' \<mapsto>
             PStr (default_queue_name gen (stack_name request) (logical_resource_id request)
                     (dict_get model ''FifoQueue'' PNone)))
         else model)"

definition create ::
  "(string \<Rightarrow> string \<Rightarrow> string) \<Rightarrow> ('s, 'c) resource_request \<Rightarrow> 's world
     \<Rightarrow> (error + 'c progress_event) \<times> 's world"
where
  "create gen request w =
     (let model = create_model gen request in
      case compile_sqs_queue_attributes model of
        Inl e \<Rightarrow> (Inl e, w)
      | Inr attributes \<Rightarrow>
     (case dict_item model ''QueueName'' of
        Inl e \<Rightarrow> (Inl e, w)
      | Inr name \<Rightarrow>
     (case compile_tags model of
        Inl e \<Rightarrow> (Inl e, w)
      | Inr tgs \<Rightarrow>
     (case call_create_queue (sqs request) name (Some attributes) (Some tgs) w of
        (Inl e, w1) \<Rightarrow> (Inl (ServiceError e), w1)
      | (Inr url, w1) \<Rightarrow>
     (case call_get_queue_attributes (sqs request) (PStr url) [''QueueArn''] w1 of
        (Inl e, w2) \<Rightarrow> (Inl (ServiceError e), w2)
      | (Inr arn, w2) \<Rightarrow>
          (Inr (ProgressEvent SUCCESS
                  (model(''QueueUrl'' \<mapsto> PStr url, ''Arn'' \<mapsto> PStr arn))
                  (Some (custom_context request))), w2))))))"

section \<open>\<^verbatim>\<open>delete\<close>\<close>

text \<open>The \<^verbatim>\<open>except\<close> clause catches \<^verbatim>\<open>QueueDoesNotExist\<close> from either call of the
  \<^verbatim>\<open>try\<close> block and nothing else.\<close>

definition delete ::
  "('s, 'c) resource_request \<Rightarrow> 's world \<Rightarrow> (error + 'c progress_event) \<times> 's world"
where
  "delete request w =
     (case previous_state request of
        None \<Rightarrow> (Inl (TypeError ''not subscriptable''), w)
      | Some prev \<Rightarrow>
     (case dict_item prev ''QueueName'' of
        Inl e \<Rightarrow> (Inl e, w)
      | Inr name \<Rightarrow>
     (case call_get_queue_url (sqs request) name w of
        (Inl QueueDoesNotExist, w1) \<Rightarrow>
          (Inr (ProgressEvent SUCCESS (desired_state request) None), w1)
      | (Inl (OtherServiceError m), w1) \<Rightarrow> (Inl (ServiceError (OtherServiceError m)), w1)
      | (Inr queue_url, w1) \<Rightarrow>
     (case call_delete_queue (sqs request) (PStr queue_url) w1 of
        (Inl QueueDoesNotExist, w2) \<Rightarrow>
          (Inr (ProgressEvent SUCCESS (desired_state request) None), w2)
      | (Inl (OtherServiceError m), w2) \<Rightarrow> (Inl (ServiceError (OtherServiceError m)), w2)
      | (Inr u, w2) \<Rightarrow>
          (Inr (ProgressEvent SUCCESS (desired_state request) None), w2)))))"

section \<open>\<^verbatim>\<open>update\<close>\<close>

text \<open>
  Lines 190 to 196. The default of \<^verbatim>\<open>get\<close> is evaluated before the call, so
  \<^verbatim>\<open>previous_state["QueueName"]\<close> is read, and raises \<^verbatim>\<open>KeyError\<close> when the key is
  missing, whether or not the desired state has a \<^verbatim>\<open>QueueName\<close>. \<^verbatim>\<open>or\<close> evaluates its
  second operand only when the first is false.
\<close>

definition should_replace :: "props \<Rightarrow> props \<Rightarrow> error + bool" where
  "should_replace desired prev =
     (case dict_item prev ''QueueName'' of
        Inl e \<Rightarrow> Inl e
      | Inr prev_name \<Rightarrow>
     (case dict_item prev ''QueueName'' of
        Inl e \<Rightarrow> Inl e
      | Inr prev_name' \<Rightarrow>
          Inr (\<not> py_eq (dict_get desired ''QueueName'' prev_name) prev_name'
               \<or> \<not> py_eq (dict_get desired ''FifoQueue'' (dict_get prev ''FifoQueue'' PNone))
                     (dict_get prev ''FifoQueue'' PNone))))"

definition update ::
  "(string \<Rightarrow> string \<Rightarrow> string) \<Rightarrow> ('s, 'c) resource_request \<Rightarrow> 's world
     \<Rightarrow> (error + 'c progress_event) \<times> 's world"
where
  "update gen request w =
     (let model = desired_state request in
      case previous_state request of
        None \<Rightarrow> (Inl AssertionError, w)
      | Some prev \<Rightarrow>
     (case should_replace (desired_state request) prev of
        Inl e \<Rightarrow> (Inl e, w)
      | Inr replace \<Rightarrow>
          if \<not> replace then (Inr (ProgressEvent SUCCESS prev None), w)
          else
     (let queue_name =
            default_queue_name gen (stack_name request) (logical_resource_id request)
              (dict_get model ''FifoQueue'' PNone)
      in
      case dict_item prev ''QueueUrl'' of
        Inl e \<Rightarrow> (Inl e, w)
      | Inr old_url \<Rightarrow>
     (case call_delete_queue (sqs request) old_url w of
        (Inl e, w1) \<Rightarrow> (Inl (ServiceError e), w1)
      | (Inr u, w1) \<Rightarrow>
     (case call_create_queue (sqs request) (PStr queue_name) None None w1 of
        (Inl e, w2) \<Rightarrow> (Inl (ServiceError e), w2)
      | (Inr url, w2) \<Rightarrow>
     (case call_get_queue_attributes (sqs request) (PStr url) [''QueueArn''] w2 of
        (Inl e, w3) \<Rightarrow> (Inl (ServiceError e), w3)
      | (Inr arn, w3) \<Rightarrow>
          (Inr (ProgressEvent SUCCESS
                  (model(''QueueUrl'' \<mapsto> PStr url, ''Arn'' \<mapsto> PStr arn)) None), w3)))))))"

section \<open>Reading JSON text back\<close>

text \<open>
  The reference against which the output of \<^verbatim>\<open>json.dumps\<close> is read: a JSON parser in
  the manner of \<^verbatim>\<open>json.loads\<close>, for the values modelled here. White space is skipped
  around every token, strings take the escapes of the JSON grammar, an object becomes a
  dictionary built pair by pair (a repeated key keeps its first position and its last
  value), and a number with a fraction or an exponent, or a \<^verbatim>\<open>\uXXXX\<close> beyond code point
  255, is outside the modelled values and gives \<open>None\<close>, as a syntax error does. The
  recursion is on a bound of the nesting, which \<open>json_loads\<close> sets from the length of the
  text.
\<close>

definition is_ws :: "char \<Rightarrow> bool" where
  "is_ws c = (c = CHR '' '' \<or> c = CHR 0x09 \<or> c = CHR 0x0A \<or> c = CHR 0x0D)"

definition skip_ws :: "string \<Rightarrow> string" where
  "skip_ws s = dropWhile is_ws s"

definition hex_val :: "char \<Rightarrow> nat option" where
  "hex_val c =
     map_of [(CHR ''0'', 0), (CHR ''1'', 1), (CHR ''2'', 2), (CHR ''3'', 3), (CHR ''4'', 4),
             (CHR ''5'', 5), (CHR ''6'', 6), (CHR ''7'', 7), (CHR ''8'', 8), (CHR ''9'', 9),
             (CHR ''a'', 10), (CHR ''b'', 11), (CHR ''c'', 12), (CHR ''d'', 13),
             (CHR ''e'', 14), (CHR ''f'', 15), (CHR ''A'', 10), (CHR ''B'', 11),
             (CHR ''C'', 12), (CHR ''D'', 13), (CHR ''E'', 14), (CHR ''F'', 15)] c"

definition is_digit :: "char \<Rightarrow> bool" where
  "is_digit c = (c \<in> set ''0123456789'')"

definition digit_val :: "char \<Rightarrow> nat" where
  "digit_val c = (case hex_val c of None \<Rightarrow> 0 | Some d \<Rightarrow> d)"

definition nat_of_digits :: "string \<Rightarrow> nat" where
  "nat_of_digits ds = foldl (\<lambda>a c. 10 * a + digit_val c) 0 ds"

definition unescape :: "char \<Rightarrow> char option" where
  "unescape e =
     map_of [(CHR 0x22, CHR 0x22), (CHR 0x5C, CHR 0x5C), (CHR ''/'', CHR ''/''),
             (CHR ''b'', CHR 0x08), (CHR ''f'', CHR 0x0C), (CHR ''n'', CHR 0x0A),
             (CHR ''r'', CHR 0x0D), (CHR ''t'', CHR 0x09)] e"

definition hex4 :: "char \<Rightarrow> char \<Rightarrow> char \<Rightarrow> char \<Rightarrow> nat option" where
  "hex4 a b c d =
     (case (hex_val a, hex_val b, hex_val c, hex_val d) of
        (Some x, Some y, Some z, Some u) \<Rightarrow> Some (((x * 16 + y) * 16 + z) * 16 + u)
      | _ \<Rightarrow> None)"

definition cons_fst :: "'a \<Rightarrow> ('a list \<times> 'b) option \<Rightarrow> ('a list \<times> 'b) option" where
  "cons_fst x r = map_option (\<lambda>p. (x # fst p, snd p)) r"

text \<open>The characters of a string after its opening quote, up to the closing one.\<close>

fun parse_chars :: "string \<Rightarrow> (string \<times> string) option" where
  "parse_chars [] = None"
| "parse_chars (c # cs) =
     (if c = CHR 0x22 then Some ([], cs)
      else if c = CHR 0x5C then
        (case cs of
           [] \<Rightarrow> None
         | e # cs' \<Rightarrow>
             if e = CHR ''u'' then
               (case cs' of
                  h1 # h2 # h3 # h4 # cs'' \<Rightarrow>
                    (case hex4 h1 h2 h3 h4 of
                       None \<Rightarrow> None
                     | Some n \<Rightarrow>
                         if n < 256 then cons_fst (char_of n) (parse_chars cs'') else None)
                | _ \<Rightarrow> None)
             else
               (case unescape e of
                  None \<Rightarrow> None
                | Some ch \<Rightarrow> cons_fst ch (parse_chars cs')))
      else if (of_char c :: nat) < 32 then None
      else cons_fst c (parse_chars cs))"

definition parse_number :: "string \<Rightarrow> (pyval \<times> string) option" where
  "parse_number s =
     (let neg = (s \<noteq> [] \<and> hd s = CHR ''-'');
          s1 = (if neg then tl s else s);
          ds = takeWhile is_digit s1;
          rest = dropWhile is_digit s1
      in if ds = [] then None
         else if 1 < length ds \<and> hd ds = CHR ''0'' then None
         else if rest \<noteq> [] \<and> hd rest \<in> set ''.eE'' then None
         else Some (PInt (if neg then - int (nat_of_digits ds) else int (nat_of_digits ds)),
                    rest))"

definition parse_literal :: "string \<Rightarrow> pyval \<Rightarrow> string \<Rightarrow> (pyval \<times> string) option" where
  "parse_literal lit v s =
     (if take (length lit) s = lit then Some (v, drop (length lit) s) else None)"

definition dict_of_pairs :: "(string \<times> pyval) list \<Rightarrow> (string \<times> pyval) list" where
  "dict_of_pairs kvs = foldl (\<lambda>d kv. dict_store d (fst kv) (snd kv)) [] kvs"

definition map_fst :: "('a \<Rightarrow> 'c) \<Rightarrow> ('a \<times> 'b) option \<Rightarrow> ('c \<times> 'b) option" where
  "map_fst f r = map_option (\<lambda>p. (f (fst p), snd p)) r"

fun parse_value :: "nat \<Rightarrow> string \<Rightarrow> (pyval \<times> string) option"
  and parse_elems :: "nat \<Rightarrow> string \<Rightarrow> (pyval list \<times> string) option"
  and parse_items :: "nat \<Rightarrow> string \<Rightarrow> ((string \<times> pyval) list \<times> string) option"
where
  "parse_value 0 s = None"
| "parse_value (Suc n) s =
     (case skip_ws s of
        [] \<Rightarrow> None
      | c # r \<Rightarrow>
          if c = CHR ''['' then
            (if skip_ws r \<noteq> [] \<and> hd (skip_ws r) = CHR '']''
             then Some (PList [], tl (skip_ws r))
             else map_fst PList (parse_elems n r))
          else if c = CHR ''{'' then
            (if skip_ws r \<noteq> [] \<and> hd (skip_ws r) = CHR ''}''
             then Some (PDict [], tl (skip_ws r))
             else map_fst (\<lambda>kvs. PDict (dict_of_pairs kvs)) (parse_items n r))
          else if c = CHR 0x22 then map_fst PStr (parse_chars r)
          else if c = CHR ''n'' then parse_literal ''null'' PNone (c # r)
          else if c = CHR ''t'' then parse_literal ''true'' (PBool True) (c # r)
          else if c = CHR ''f'' then parse_literal ''false'' (PBool False) (c # r)
          else parse_number (c # r))"
| "parse_elems 0 s = None"
| "parse_elems (Suc n) s =
     (case parse_value n s of
        None \<Rightarrow> None
      | Some (v, r) \<Rightarrow>
          (case skip_ws r of
             [] \<Rightarrow> None
           | c # r' \<Rightarrow>
               if c = CHR '','' then cons_fst v (parse_elems n r')
               else if c = CHR '']'' then Some ([v], r')
               else None))"
| "parse_items 0 s = None"
| "parse_items (Suc n) s =
     (case skip_ws s of
        [] \<Rightarrow> None
      | q # r \<Rightarrow>
          if q \<noteq> CHR 0x22 then None
          else
            (case parse_chars r of
               None \<Rightarrow> None
             | Some (k, r1) \<Rightarrow>
                 (case skip_ws r1 of
                    [] \<Rightarrow> None
                  | c1 # r2 \<Rightarrow>
                      if c1 \<noteq> CHR '':'' then None
                      else
                        (case parse_value n r2 of
                           None \<Rightarrow> None
                         | Some (v, r3) \<Rightarrow>
                             (case skip_ws r3 of
                                [] \<Rightarrow> None
                              | c3 # r4 \<Rightarrow>
                                  if c3 = CHR '','' then cons_fst (k, v) (parse_items n r4)
                                  else if c3 = CHR ''}'' then Some ([(k, v)], r4)
                                  else None)))))"

definition json_loads :: "string \<Rightarrow> pyval option" where
  "json_loads s =
     (case parse_value (Suc (length s)) s of
        None \<Rightarrow> None
      | Some (v, r) \<Rightarrow> if skip_ws r = [] then Some v else None)"

text \<open>A dictionary has each key once, at every depth of a value.\<close>

fun wf_pyval :: "pyval \<Rightarrow> bool"
  and wf_elems :: "pyval list \<Rightarrow> bool"
  and wf_items :: "(string \<times> pyval) list \<Rightarrow> bool"
where
  "wf_pyval (PList xs) = wf_elems xs"
| "wf_pyval (PDict kvs) = (distinct (map fst kvs) \<and> wf_items kvs)"
| "wf_pyval v = True"
| "wf_elems [] = True"
| "wf_elems (x # xs) = (wf_pyval x \<and> wf_elems xs)"
| "wf_items [] = True"
| "wf_items (kv # kvs) = (wf_pyval (snd kv) \<and> wf_items kvs)"

text \<open>How deep the parser's recursion goes on the text of a value.\<close>

fun nesting :: "pyval \<Rightarrow> nat"
  and nesting_elems :: "pyval list \<Rightarrow> nat"
  and nesting_items :: "(string \<times> pyval) list \<Rightarrow> nat"
where
  "nesting (PList xs) = Suc (nesting_elems xs)"
| "nesting (PDict kvs) = Suc (nesting_items kvs)"
| "nesting v = 1"
| "nesting_elems [] = 0"
| "nesting_elems (x # xs) = Suc (max (nesting x) (nesting_elems xs))"
| "nesting_items [] = 0"
| "nesting_items (kv # kvs) = Suc (max (nesting (snd kv)) (nesting_items kvs))"

text \<open>What may follow the text of a value: nothing that would continue a number.\<close>

definition follow_ok :: "string \<Rightarrow> bool" where
  "follow_ok rest = (rest = [] \<or> (\<not> is_digit (hd rest) \<and> hd rest \<notin> set ''.eE''))"

text \<open>The first character of the text of a value is neither white space nor a closing
  bracket.\<close>

definition start_ok :: "char \<Rightarrow> bool" where
  "start_ok c = (\<not> is_ws c \<and> c \<noteq> CHR '']'')"

section \<open>The replacement rule in the words of the specification\<close>

text \<open>
  ``\<^verbatim>\<open>shouldReplace\<close> = true if the desired \<^verbatim>\<open>QueueName\<close> differs from the previous
  \<^verbatim>\<open>QueueName\<close>, OR the desired \<^verbatim>\<open>FifoQueue\<close> flag differs from the previous one (using the
  previous value as default when desired omits the field).'' The previous value of a
  field that the previous state does not have is \<^verbatim>\<open>None\<close>; to differ is \<^verbatim>\<open>!=\<close>.
\<close>

definition previous_value :: "props \<Rightarrow> string \<Rightarrow> pyval" where
  "previous_value prev k = (case prev k of None \<Rightarrow> PNone | Some v \<Rightarrow> v)"

definition desired_value :: "props \<Rightarrow> props \<Rightarrow> string \<Rightarrow> pyval" where
  "desired_value desired prev k =
     (case desired k of None \<Rightarrow> previous_value prev k | Some v \<Rightarrow> v)"

definition spec_should_replace :: "props \<Rightarrow> props \<Rightarrow> bool" where
  "spec_should_replace desired prev =
     (\<not> py_eq (desired_value desired prev ''QueueName'') (previous_value prev ''QueueName'')
      \<or> \<not> py_eq (desired_value desired prev ''FifoQueue'') (previous_value prev ''FifoQueue''))"

section \<open>A stand-in for the service\<close>

text \<open>
  A small in-memory queueing service and a name generator, at which the theorems below
  are instantiated: the state is the list of the names of the queues that exist, the URL
  of a queue is its name behind a fixed prefix.
\<close>

definition test_url :: "string \<Rightarrow> string" where
  "test_url n = ''http://sqs/'' @ n"

definition test_sqs :: "string list sqs_client" where
  "test_sqs =
     \<lparr> create_queue = (\<lambda>name attrs tgs s.
         case name of
           PStr n \<Rightarrow> (Inr (test_url n), n # s)
         | _ \<Rightarrow> (Inl (OtherServiceError ''InvalidParameterValue''), s)),
       get_queue_attributes = (\<lambda>url names s.
         case url of
           PStr u \<Rightarrow> (Inr (''arn:aws:sqs:'' @ u), s)
         | _ \<Rightarrow> (Inl (OtherServiceError ''InvalidParameterValue''), s)),
       get_queue_url = (\<lambda>name s.
         case name of
           PStr n \<Rightarrow> if n \<in> set s then (Inr (test_url n), s) else (Inl QueueDoesNotExist, s)
         | _ \<Rightarrow> (Inl (OtherServiceError ''InvalidParameterValue''), s)),
       delete_queue = (\<lambda>url s.
         case url of
           PStr u \<Rightarrow>
             if u \<in> set (map test_url s)
             then (Inr (), filter (\<lambda>n. test_url n \<noteq> u) s)
             else (Inl QueueDoesNotExist, s)
         | _ \<Rightarrow> (Inl (OtherServiceError ''InvalidParameterValue''), s)) \<rparr>"

text \<open>The same service for a caller that may read but not write.\<close>

definition readonly_sqs :: "string list sqs_client" where
  "readonly_sqs =
     test_sqs
     \<lparr> create_queue := (\<lambda>name attrs tgs s. (Inl (OtherServiceError ''AccessDenied''), s)),
       delete_queue := (\<lambda>url s. (Inl (OtherServiceError ''AccessDenied''), s)) \<rparr>"

definition test_gen :: "string \<Rightarrow> string \<Rightarrow> string" where
  "test_gen stack lid = stack @ ''-'' @ lid @ ''-0a1b2c3d''"

text \<open>A request to the stand-in, for a stack \<^verbatim>\<open>stack\<close> and a resource \<^verbatim>\<open>Queue\<close>.\<close>

definition test_request :: "props \<Rightarrow> props option \<Rightarrow> (string list, unit) resource_request" where
  "test_request desired prev =
     \<lparr> desired_state = desired, previous_state = prev, stack_name = ''stack'',
       logical_resource_id = ''Queue'', custom_context = (), sqs = test_sqs \<rparr>"

text \<open>A property bag with an attribute of each kind.\<close>

definition example_properties :: props where
  "example_properties =
     [''QueueName'' \<mapsto> PStr ''orders'',
      ''VisibilityTimeout'' \<mapsto> PInt 300,
      ''FifoQueue'' \<mapsto> PBool True,
      ''ContentBasedDeduplication'' \<mapsto> PBool False,
      ''KmsMasterKeyId'' \<mapsto> PStr ''alias/k'',
      ''DelaySeconds'' \<mapsto> PNone,
      ''RedrivePolicy'' \<mapsto>
         PDict [(''deadLetterTargetArn'', PStr ''arn:aws:sqs:dlq''), (''maxReceiveCount'', PInt 3)]]"

section \<open>Text that reads back\<close>

text \<open>The text \<^verbatim>\<open>json.dumps\<close> writes for a value is read back by \<open>json_loads\<close> as that
  value; on the way, an integer's decimal text is read back as the integer.\<close>

lemma hex_val_digit_char_all: "\<forall>d \<in> set [0..<16]. hex_val (digit_char d) = Some d"
  by code_simp

lemma hex_val_digit_char: "d < 16 \<Longrightarrow> hex_val (digit_char d) = Some d"
  using hex_val_digit_char_all by simp

lemma is_digit_digit_char_all: "\<forall>d \<in> set [0..<10]. is_digit (digit_char d)"
  by code_simp

lemma is_digit_digit_char: "d < 10 \<Longrightarrow> is_digit (digit_char d)"
  using is_digit_digit_char_all by simp

lemma hex4_byte:
  "n < 256 \<Longrightarrow> hex4 (CHR ''0'') (CHR ''0'') (digit_char (n div 16)) (digit_char (n mod 16)) = Some n"
proof -
  assume n: "n < 256"
  then have a: "n div 16 < 16" by simp
  have b: "n mod 16 < 16" by simp
  have z: "hex_val (CHR ''0'') = Some 0" by (simp add: hex_val_def)
  show ?thesis
    by (simp add: hex4_def z hex_val_digit_char [OF a] hex_val_digit_char [OF b])
qed

lemma of_char_less_256: "(of_char c :: nat) < 256"
  by (simp add: of_char_def) 

lemma parse_chars_escape_char:
  "parse_chars (escape_char c @ t) = cons_fst c (parse_chars t)"
proof -
  have h: "hex4 (CHR ''0'') (CHR ''0'') (digit_char ((of_char c :: nat) div 16))
             (digit_char ((of_char c :: nat) mod 16)) = Some (of_char c)"
    by (rule hex4_byte) (rule of_char_less_256)
  show ?thesis
    by (simp add: escape_char_def unescape_def h)
qed

lemma parse_chars_escaped:
  "parse_chars (concat (map escape_char s) @ CHR 0x22 # rest) = Some (s, rest)"
  by (induction s) (simp_all add: parse_chars_escape_char cons_fst_def)

lemma parse_chars_encode_str:
  "parse_chars (tl (encode_str s) @ rest) = Some (s, rest)"
  by (simp add: encode_str_def parse_chars_escaped)


lemma digit_val_digit_char_all: "\<forall>d \<in> set [0..<10]. digit_val (digit_char d) = d"
  by code_simp

lemma digit_val_digit_char: "d < 10 \<Longrightarrow> digit_val (digit_char d) = d"
  using digit_val_digit_char_all by simp

lemma digit_char_nonzero_all: "\<forall>d \<in> set [1..<10]. digit_char d \<noteq> CHR ''0''"
  by code_simp

lemma digit_char_nonzero: "0 < d \<Longrightarrow> d < 10 \<Longrightarrow> digit_char d \<noteq> CHR ''0''"
  using digit_char_nonzero_all by simp

lemma str_nat_nonempty: "str_nat n \<noteq> []"
  by (subst str_nat.simps) simp

lemma str_nat_digits: "c \<in> set (str_nat n) \<Longrightarrow> is_digit c"
proof (induction n arbitrary: c rule: str_nat.induct)
  case (1 n)
  show ?case
  proof (cases "n < 10")
    case True
    with "1.prems" show ?thesis
      by (subst (asm) str_nat.simps) (simp add: is_digit_digit_char)
  next
    case False
    have "n mod 10 < 10" by simp
    with False "1.prems" "1.IH" show ?thesis
      by (subst (asm) str_nat.simps) (auto simp: is_digit_digit_char)
  qed
qed

lemma nat_of_digits_snoc:
  "nat_of_digits (ds @ [c]) = 10 * nat_of_digits ds + digit_val c"
  by (simp add: nat_of_digits_def)

lemma nat_of_digits_str_nat: "nat_of_digits (str_nat n) = n"
proof (induction n rule: str_nat.induct)
  case (1 n)
  show ?case
  proof (cases "n < 10")
    case True
    then show ?thesis
      by (subst str_nat.simps) (simp add: nat_of_digits_def digit_val_digit_char)
  next
    case False
    with "1.IH" show ?thesis
      by (subst str_nat.simps) (simp add: nat_of_digits_snoc digit_val_digit_char)
  qed
qed

lemma hd_str_nat_nonzero: "0 < n \<Longrightarrow> hd (str_nat n) \<noteq> CHR ''0''"
proof (induction n rule: str_nat.induct)
  case (1 n)
  show ?case
  proof (cases "n < 10")
    case True
    with "1.prems" show ?thesis
      by (subst str_nat.simps) (simp add: digit_char_nonzero)
  next
    case False
    then have "0 < n div 10" by simp
    with False "1.IH" show ?thesis
      by (subst str_nat.simps) (simp add: str_nat_nonempty)
  qed
qed

lemma length_str_nat_small: "1 < length (str_nat n) \<Longrightarrow> 0 < n"
  by (subst (asm) str_nat.simps) (auto split: if_splits)


lemma takeWhile_str_nat:
  "follow_ok rest \<Longrightarrow> takeWhile is_digit (str_nat n @ rest) = str_nat n"
  by (cases rest) (auto simp: follow_ok_def takeWhile_append str_nat_digits takeWhile_eq_all_conv [THEN iffD2])

lemma dropWhile_str_nat:
  "follow_ok rest \<Longrightarrow> dropWhile is_digit (str_nat n @ rest) = rest"
  by (cases rest) (auto simp: follow_ok_def dropWhile_append str_nat_digits dropWhile_eq_Nil_conv [THEN iffD2])

lemma hd_str_nat_not_minus: "hd (str_nat n) \<noteq> CHR ''-''"
proof -
  have "hd (str_nat n) \<in> set (str_nat n)" by (simp add: str_nat_nonempty)
  then have "is_digit (hd (str_nat n))" by (rule str_nat_digits)
  then show ?thesis by (auto simp: is_digit_def)
qed

lemma parse_number_str_nat:
  assumes "follow_ok rest"
  shows "parse_number (str_nat n @ rest) = Some (PInt (int n), rest)"
proof -
  have lead: "\<not> (1 < length (str_nat n) \<and> hd (str_nat n) = CHR ''0'')"
    using hd_str_nat_nonzero length_str_nat_small by blast
  have fol: "\<not> (rest \<noteq> [] \<and> hd rest \<in> set ''.eE'')"
    using assms by (auto simp: follow_ok_def)
  show ?thesis
    using lead fol
    by (simp add: parse_number_def Let_def takeWhile_str_nat [OF assms]
          dropWhile_str_nat [OF assms] str_nat_nonempty hd_str_nat_not_minus
          nat_of_digits_str_nat hd_append)
qed

lemma parse_number_str_int:
  assumes "follow_ok rest"
  shows "parse_number (str_int i @ rest) = Some (PInt i, rest)"
proof (cases "i < 0")
  case True
  have lead: "\<not> (1 < length (str_nat (nat (- i))) \<and> hd (str_nat (nat (- i))) = CHR ''0'')"
    using hd_str_nat_nonzero length_str_nat_small by blast
  have fol: "\<not> (rest \<noteq> [] \<and> hd rest \<in> set ''.eE'')"
    using assms by (auto simp: follow_ok_def)
  show ?thesis
    using True lead fol
    by (simp add: str_int_def parse_number_def Let_def takeWhile_str_nat [OF assms]
          dropWhile_str_nat [OF assms] str_nat_nonempty nat_of_digits_str_nat)
next
  case False
  then show ?thesis
    using parse_number_str_nat [OF assms, of "nat i"] by (simp add: str_int_def)
qed


lemma dict_store_fresh: "k \<notin> fst ` set d \<Longrightarrow> dict_store d k v = d @ [(k, v)]"
  by (induction d) auto

lemma foldl_dict_store:
  "distinct (map fst (acc @ kvs)) \<Longrightarrow>
   foldl (\<lambda>d kv. dict_store d (fst kv) (snd kv)) acc kvs = acc @ kvs"
proof (induction kvs arbitrary: acc)
  case Nil
  then show ?case by simp
next
  case (Cons kv kvs)
  from Cons.prems have fresh: "fst kv \<notin> fst ` set acc" by auto
  from Cons.prems have "distinct (map fst ((acc @ [kv]) @ kvs))" by simp
  from Cons.IH [OF this] show ?case
    by (simp add: dict_store_fresh [OF fresh])
qed

lemma dict_of_pairs_distinct: "distinct (map fst kvs) \<Longrightarrow> dict_of_pairs kvs = kvs"
  using foldl_dict_store [of "[]" kvs] by (simp add: dict_of_pairs_def)

lemma is_digit_start_ok: "is_digit c \<Longrightarrow> start_ok c"
  by (auto simp: is_digit_def start_ok_def is_ws_def)

lemma hd_str_nat_digit: "is_digit (hd (str_nat n))"
  by (rule str_nat_digits [of _ n]) (simp add: str_nat_nonempty)

lemma str_int_start: "\<exists>c cs. str_int i = c # cs \<and> (c = CHR ''-'' \<or> is_digit c)"
proof (cases "i < 0")
  case True
  then show ?thesis by (simp add: str_int_def)
next
  case False
  obtain c cs where eq: "str_nat (nat i) = c # cs"
    using str_nat_nonempty by (cases "str_nat (nat i)") auto
  have "is_digit c" using hd_str_nat_digit [of "nat i"] by (simp add: eq)
  with False eq show ?thesis by (simp add: str_int_def)
qed

lemma json_dumps_start: "\<exists>c cs. json_dumps v = c # cs \<and> start_ok c"
proof (cases v)
  case (PInt i)
  obtain c cs where eq: "str_int i = c # cs" and c: "c = CHR ''-'' \<or> is_digit c"
    using str_int_start by blast
  from c have "start_ok c"
    using is_digit_start_ok by (auto simp: start_ok_def is_ws_def)
  with PInt eq show ?thesis by simp
qed (simp_all add: start_ok_def is_ws_def encode_str_def)

lemma start_ok_not_ws: "start_ok c \<Longrightarrow> \<not> is_ws c"
  by (auto simp: start_ok_def is_ws_def)

lemma skip_ws_start: "start_ok c \<Longrightarrow> skip_ws (c # cs) = c # cs"
  by (simp add: skip_ws_def start_ok_not_ws)

lemma skip_ws_space: "skip_ws (CHR '' '' # s) = skip_ws s"
  by (simp add: skip_ws_def is_ws_def)

lemma parse_value_space: "parse_value n (CHR '' '' # s) = parse_value n s"
  by (cases n) (simp_all add: skip_ws_space)

lemma parse_elems_space: "parse_elems n (CHR '' '' # s) = parse_elems n s"
  by (cases n) (simp_all add: parse_value_space)

lemma parse_items_space: "parse_items n (CHR '' '' # s) = parse_items n s"
  by (cases n) (simp_all add: skip_ws_space)


lemma follow_ok_simps:
  "follow_ok (CHR '']'' # r)" "follow_ok (CHR ''}'' # r)" "follow_ok (CHR '','' # r)" "follow_ok []"
  by (simp_all add: follow_ok_def is_digit_def)

lemma skip_ws_punct:
  "skip_ws (CHR '']'' # r) = CHR '']'' # r"
  "skip_ws (CHR ''}'' # r) = CHR ''}'' # r"
  "skip_ws (CHR '','' # r) = CHR '','' # r"
  "skip_ws (CHR '':'' # r) = CHR '':'' # r"
  "skip_ws (CHR ''['' # r) = CHR ''['' # r"
  "skip_ws (CHR ''{'' # r) = CHR ''{'' # r"
  "skip_ws (CHR 0x22 # r) = CHR 0x22 # r"
  by (simp_all add: skip_ws_def is_ws_def)

lemma parse_value_atom_int:
  assumes "follow_ok rest"
  shows "parse_value (Suc m) (str_int i @ rest) = Some (PInt i, rest)"
proof -
  obtain c cs where eq: "str_int i = c # cs" and c: "c = CHR ''-'' \<or> is_digit c"
    using str_int_start by blast
  from c have ws: "\<not> is_ws c" and ne: "c \<noteq> CHR ''[''" "c \<noteq> CHR ''{''" "c \<noteq> CHR 0x22"
      "c \<noteq> CHR ''n''" "c \<noteq> CHR ''t''" "c \<noteq> CHR ''f''"
    by (auto simp: is_digit_def is_ws_def)
  have "parse_value (Suc m) (c # cs @ rest) = parse_number (c # cs @ rest)"
    using ws ne by (simp add: skip_ws_def)
  then show ?thesis
    using parse_number_str_int [OF assms, of i] by (simp add: eq)
qed

lemma dumps_elems_start:
  "xs \<noteq> [] \<Longrightarrow> \<exists>c cs. dumps_elems xs @ r = c # cs \<and> start_ok c"
proof (cases xs)
  case Nil
  assume "xs \<noteq> []"
  with Nil show ?thesis by simp
next
  case (Cons x ys)
  obtain c cs where "json_dumps x = c # cs" "start_ok c"
    using json_dumps_start by blast
  with Cons show ?thesis by (cases ys) auto
qed

lemma dumps_items_start:
  "kvs \<noteq> [] \<Longrightarrow> \<exists>cs. dumps_items kvs @ r = CHR 0x22 # cs"
proof (cases kvs)
  case Nil
  assume "kvs \<noteq> []"
  with Nil show ?thesis by simp
next
  case (Cons kv ys)
  then show ?thesis by (cases ys) (auto simp: encode_str_def)
qed

lemma parse_value_list:
  assumes "xs \<noteq> [] \<Longrightarrow> parse_elems m (dumps_elems xs @ CHR '']'' # rest) = Some (xs, rest)"
  shows "parse_value (Suc m) (json_dumps (PList xs) @ rest) = Some (PList xs, rest)"
proof (cases "xs = []")
  case True
  then show ?thesis by (simp add: skip_ws_punct)
next
  case False
  obtain c cs where eq: "dumps_elems xs @ CHR '']'' # rest = c # cs" and c: "start_ok c"
    using dumps_elems_start [OF False] by blast
  from c have "skip_ws (c # cs) = c # cs" "c \<noteq> CHR '']''"
    by (simp_all add: skip_ws_start) (simp add: start_ok_def)
  with assms [OF False] eq show ?thesis
    by (simp add: skip_ws_punct map_fst_def)
qed

lemma parse_value_dict:
  assumes "kvs \<noteq> [] \<Longrightarrow> parse_items m (dumps_items kvs @ CHR ''}'' # rest) = Some (kvs, rest)"
    and "distinct (map fst kvs)"
  shows "parse_value (Suc m) (json_dumps (PDict kvs) @ rest) = Some (PDict kvs, rest)"
proof (cases "kvs = []")
  case True
  then show ?thesis by (simp add: skip_ws_punct)
next
  case False
  obtain cs where eq: "dumps_items kvs @ CHR ''}'' # rest = CHR 0x22 # cs"
    using dumps_items_start [OF False] by blast
  with assms(1) [OF False] show ?thesis
    by (simp add: skip_ws_punct map_fst_def dict_of_pairs_distinct [OF assms(2)])
qed


lemma parse_elems_single:
  assumes "parse_value m (json_dumps x @ CHR '']'' # rest) = Some (x, CHR '']'' # rest)"
  shows "parse_elems (Suc m) (dumps_elems [x] @ CHR '']'' # rest) = Some ([x], rest)"
  using assms by (simp add: skip_ws_punct)

lemma parse_elems_more:
  assumes "parse_value m (json_dumps x @ CHR '','' # CHR '' '' # t) = Some (x, CHR '','' # CHR '' '' # t)"
    and "parse_elems m t = Some (ys, rest)"
  shows "parse_elems (Suc m) (json_dumps x @ CHR '','' # CHR '' '' # t) = Some (x # ys, rest)"
  using assms by (simp add: skip_ws_punct parse_elems_space cons_fst_def)

lemma parse_items_single:
  assumes "parse_value m (json_dumps v @ CHR ''}'' # rest) = Some (v, CHR ''}'' # rest)"
  shows "parse_items (Suc m) (dumps_items [(k, v)] @ CHR ''}'' # rest) = Some ([(k, v)], rest)"
proof -
  have "parse_chars (tl (encode_str k) @ CHR '':'' # CHR '' '' # json_dumps v @ CHR ''}'' # rest)
          = Some (k, CHR '':'' # CHR '' '' # json_dumps v @ CHR ''}'' # rest)"
    by (rule parse_chars_encode_str)
  then show ?thesis
    using assms
    by (simp add: encode_str_def skip_ws_punct parse_value_space)
qed

lemma parse_items_more:
  assumes "parse_value m (json_dumps v @ CHR '','' # CHR '' '' # t) = Some (v, CHR '','' # CHR '' '' # t)"
    and "parse_items m t = Some (kvs, rest)"
  shows "parse_items (Suc m) (encode_str k @ CHR '':'' # CHR '' '' # json_dumps v @ CHR '','' # CHR '' '' # t)
           = Some ((k, v) # kvs, rest)"
proof -
  have "parse_chars (tl (encode_str k) @ CHR '':'' # CHR '' '' # json_dumps v @ CHR '','' # CHR '' '' # t)
          = Some (k, CHR '':'' # CHR '' '' # json_dumps v @ CHR '','' # CHR '' '' # t)"
    by (rule parse_chars_encode_str)
  then show ?thesis
    using assms
    by (simp add: encode_str_def skip_ws_punct parse_value_space parse_items_space cons_fst_def)
qed

lemma parse_dumps:
  "(\<forall>n rest. nesting v \<le> n \<longrightarrow> follow_ok rest \<longrightarrow> wf_pyval v \<longrightarrow>
      parse_value n (json_dumps v @ rest) = Some (v, rest))"
  "(xs \<noteq> [] \<longrightarrow> (\<forall>n rest. nesting_elems xs \<le> n \<longrightarrow> wf_elems xs \<longrightarrow>
      parse_elems n (dumps_elems xs @ CHR '']'' # rest) = Some (xs, rest)))"
  "(kvs \<noteq> [] \<longrightarrow> (\<forall>n rest. nesting_items kvs \<le> n \<longrightarrow> wf_items kvs \<longrightarrow>
      parse_items n (dumps_items kvs @ CHR ''}'' # rest) = Some (kvs, rest)))"
proof (induction v and xs and kvs rule: json_dumps_dumps_elems_dumps_items.induct)
  case 1
  show ?case
  proof (intro allI impI)
    fix n rest assume "nesting PNone \<le> n"
    then obtain m where "n = Suc m" by (cases n) auto
    then show "parse_value n (json_dumps PNone @ rest) = Some (PNone, rest)"
      by (simp add: skip_ws_def is_ws_def parse_literal_def)
  qed
next
  case (2 b)
  show ?case
  proof (intro allI impI)
    fix n rest assume "nesting (PBool b) \<le> n"
    then obtain m where "n = Suc m" by (cases n) auto
    then show "parse_value n (json_dumps (PBool b) @ rest) = Some (PBool b, rest)"
      by (simp add: skip_ws_def is_ws_def parse_literal_def)
  qed
next
  case (3 i)
  show ?case
  proof (intro allI impI)
    fix n rest assume "nesting (PInt i) \<le> n" and f: "follow_ok rest"
    then obtain m where "n = Suc m" by (cases n) auto
    then show "parse_value n (json_dumps (PInt i) @ rest) = Some (PInt i, rest)"
      using parse_value_atom_int [OF f] by simp
  qed
next
  case (4 s)
  show ?case
  proof (intro allI impI)
    fix n rest assume "nesting (PStr s) \<le> n"
    then obtain m where "n = Suc m" by (cases n) auto
    then show "parse_value n (json_dumps (PStr s) @ rest) = Some (PStr s, rest)"
      using parse_chars_encode_str [of s rest]
      by (simp add: encode_str_def skip_ws_punct map_fst_def)
  qed
next
  case (5 xs)
  show ?case
  proof (intro allI impI)
    fix n rest assume le: "nesting (PList xs) \<le> n" and wf: "wf_pyval (PList xs)"
    then obtain m where n: "n = Suc m" and m: "nesting_elems xs \<le> m" by (cases n) auto
    have "xs \<noteq> [] \<Longrightarrow> parse_elems m (dumps_elems xs @ CHR '']'' # rest) = Some (xs, rest)"
      using 5 m wf by simp
    from parse_value_list [OF this]
    show "parse_value n (json_dumps (PList xs) @ rest) = Some (PList xs, rest)"
      by (simp add: n)
  qed
next
  case (6 kvs)
  show ?case
  proof (intro allI impI)
    fix n rest assume le: "nesting (PDict kvs) \<le> n" and wf: "wf_pyval (PDict kvs)"
    then obtain m where n: "n = Suc m" and m: "nesting_items kvs \<le> m" by (cases n) auto
    have a: "kvs \<noteq> [] \<Longrightarrow> parse_items m (dumps_items kvs @ CHR ''}'' # rest) = Some (kvs, rest)"
      using 6 m wf by simp
    have d: "distinct (map fst kvs)" using wf by simp
    from parse_value_dict [OF a d]
    show "parse_value n (json_dumps (PDict kvs) @ rest) = Some (PDict kvs, rest)"
      by (simp add: n)
  qed
next
  case 7
  show ?case by simp
next
  case (8 x)
  show ?case
  proof (intro allI impI)
    fix n rest assume le: "nesting_elems [x] \<le> n" and wf: "wf_elems [x]"
    then obtain m where n: "n = Suc m" and m: "nesting x \<le> m" by (cases n) auto
    have "parse_value m (json_dumps x @ CHR '']'' # rest) = Some (x, CHR '']'' # rest)"
      using 8 m wf by (simp add: follow_ok_simps)
    from parse_elems_single [OF this]
    show "parse_elems n (dumps_elems [x] @ CHR '']'' # rest) = Some ([x], rest)"
      by (simp add: n)
  qed
next
  case (9 x y ys)
  show ?case
  proof (intro allI impI)
    fix n rest assume le: "nesting_elems (x # y # ys) \<le> n" and wf: "wf_elems (x # y # ys)"
    then obtain m where n: "n = Suc m" and m: "nesting x \<le> m" "nesting_elems (y # ys) \<le> m"
      by (cases n) auto
    let ?t = "dumps_elems (y # ys) @ CHR '']'' # rest"
    have a: "parse_value m (json_dumps x @ CHR '','' # CHR '' '' # ?t) = Some (x, CHR '','' # CHR '' '' # ?t)"
      using 9(1) m wf by (simp add: follow_ok_simps)
    have b: "parse_elems m ?t = Some (y # ys, rest)"
      using 9(2) m wf by simp
    from parse_elems_more [OF a b]
    show "parse_elems n (dumps_elems (x # y # ys) @ CHR '']'' # rest) = Some (x # y # ys, rest)"
      by (simp add: n)
  qed
next
  case 10
  show ?case by simp
next
  case (11 kv)
  show ?case
  proof (intro allI impI)
    fix n rest assume le: "nesting_items [kv] \<le> n" and wf: "wf_items [kv]"
    then obtain m where n: "n = Suc m" and m: "nesting (snd kv) \<le> m" by (cases n) auto
    have "parse_value m (json_dumps (snd kv) @ CHR ''}'' # rest) = Some (snd kv, CHR ''}'' # rest)"
      using 11 m wf by (simp add: follow_ok_simps)
    from parse_items_single [OF this, of "fst kv"]
    show "parse_items n (dumps_items [kv] @ CHR ''}'' # rest) = Some ([kv], rest)"
      by (simp add: n)
  qed
next
  case (12 kv kv' kvs)
  show ?case
  proof (intro allI impI)
    fix n rest
    assume le: "nesting_items (kv # kv' # kvs) \<le> n" and wf: "wf_items (kv # kv' # kvs)"
    then obtain m where n: "n = Suc m" and m: "nesting (snd kv) \<le> m"
        "nesting_items (kv' # kvs) \<le> m"
      by (cases n) auto
    let ?t = "dumps_items (kv' # kvs) @ CHR ''}'' # rest"
    have a: "parse_value m (json_dumps (snd kv) @ CHR '','' # CHR '' '' # ?t)
               = Some (snd kv, CHR '','' # CHR '' '' # ?t)"
      using 12(1) m wf by (simp add: follow_ok_simps)
    have b: "parse_items m ?t = Some (kv' # kvs, rest)"
      using 12(2) m wf by simp
    from parse_items_more [OF a b, of "fst kv"]
    show "parse_items n (dumps_items (kv # kv' # kvs) @ CHR ''}'' # rest)
            = Some (kv # kv' # kvs, rest)"
      by (simp add: n)
  qed
qed

lemma nesting_le_length:
  "nesting v \<le> length (json_dumps v)"
  "nesting_elems xs \<le> Suc (length (dumps_elems xs))"
  "nesting_items kvs \<le> Suc (length (dumps_items kvs))"
proof (induction v and xs and kvs rule: json_dumps_dumps_elems_dumps_items.induct)
  case (3 i)
  obtain c cs where "str_int i = c # cs" using str_int_start by blast
  then show ?case by simp
qed (auto simp: encode_str_def)

lemma json_loads_json_dumps: "wf_pyval v \<Longrightarrow> json_loads (json_dumps v) = Some v"
proof -
  assume wf: "wf_pyval v"
  have "nesting v \<le> Suc (length (json_dumps v))"
    using nesting_le_length(1) [of v] by simp
  with wf parse_dumps(1) [of v] follow_ok_simps(4)
  have "parse_value (Suc (length (json_dumps v))) (json_dumps v @ []) = Some (v, [])"
    by blast
  then show ?thesis by (simp add: json_loads_def skip_ws_def)
qed

section \<open>The provider\<close>

lemmas call_defs =
  call_delete_queue_def call_create_queue_def call_get_queue_attributes_def
  call_get_queue_url_def

subsection \<open>Facts about the attribute loop\<close>

lemma convert_attribute_error:
  "convert_attribute k v = Inl e \<Longrightarrow> \<exists>xs. v = PList xs \<and>
     e = TypeError (''cannot convert attribute '' @ k @ '', unhandled type <class 'list'>'')"
  by (cases v) simp_all

lemma compile_loop_unsupported:
  "k \<in> set ks \<Longrightarrow> properties k = Some (PList xs) \<Longrightarrow>
   \<exists>msg. compile_loop properties ks acc = Inl (TypeError msg)"
proof (induction ks arbitrary: acc)
  case Nil
  then show ?case by simp
next
  case (Cons k' ks)
  show ?case
  proof (cases "convert_attribute k' (dict_get properties k' PNone)")
    case (Inl e)
    then show ?thesis using convert_attribute_error [OF Inl] by auto
  next
    case (Inr r)
    with Cons.prems have "k \<noteq> k'" by (auto simp: dict_get_def)
    with Cons.prems have "k \<in> set ks" by simp
    from Cons.IH [OF this Cons.prems(2)] Inr show ?thesis
      by (cases r) auto
  qed
qed

lemma compile_loop_cong:
  "(\<And>k. k \<in> set ks \<Longrightarrow> m k = m' k) \<Longrightarrow> compile_loop m ks acc = compile_loop m' ks acc"
  by (induction ks arbitrary: acc) (auto simp: dict_get_def split: sum.splits option.splits)

lemma create_model_other:
  "k \<noteq> ''QueueName'' \<Longrightarrow> create_model gen request k = desired_state request k"
  by (auto simp: create_model_def Let_def)

lemma QueueName_not_attribute: "''QueueName'' \<notin> set queue_attribute_list"
  by (simp add: queue_attribute_list_def)

lemma compile_create_model:
  "compile_sqs_queue_attributes (create_model gen request)
     = compile_sqs_queue_attributes (desired_state request)"
  unfolding compile_sqs_queue_attributes_def
  by (rule compile_loop_cong) (metis create_model_other QueueName_not_attribute)

lemma map_of_dict_store: "map_of (dict_store d k v) = (map_of d)(k \<mapsto> v)"
  by (induction d) (auto simp: fun_eq_iff)

lemma compile_loop_result:
  "compile_loop properties ks acc = Inr result \<Longrightarrow> distinct ks \<Longrightarrow>
   (\<And>k. k \<in> set ks \<Longrightarrow> map_of acc k = None) \<Longrightarrow>
   (\<forall>k \<in> set ks. convert_attribute k (dict_get properties k PNone) = Inr (map_of result k))
   \<and> (\<forall>k. k \<notin> set ks \<longrightarrow> map_of result k = map_of acc k)"
proof (induction ks arbitrary: acc)
  case Nil
  then show ?case by simp
next
  case (Cons k ks)
  show ?case
  proof (cases "convert_attribute k (dict_get properties k PNone)")
    case (Inl e)
    with Cons.prems(1) show ?thesis by simp
  next
    case (Inr r)
    show ?thesis
    proof (cases r)
      case None
      with Inr Cons.prems have run: "compile_loop properties ks acc = Inr result" by simp
      have "(\<forall>k \<in> set ks. convert_attribute k (dict_get properties k PNone) = Inr (map_of result k))
            \<and> (\<forall>k. k \<notin> set ks \<longrightarrow> map_of result k = map_of acc k)"
        using Cons.IH [OF run] Cons.prems by simp
      moreover from this Cons.prems have "map_of result k = None" by simp
      ultimately show ?thesis using Inr None by auto
    next
      case (Some v)
      with Inr Cons.prems
      have run: "compile_loop properties ks (dict_store acc k v) = Inr result" by simp
      have fresh: "\<And>k'. k' \<in> set ks \<Longrightarrow> map_of (dict_store acc k v) k' = None"
        using Cons.prems by (auto simp: map_of_dict_store)
      have "(\<forall>k' \<in> set ks. convert_attribute k' (dict_get properties k' PNone) = Inr (map_of result k'))
            \<and> (\<forall>k'. k' \<notin> set ks \<longrightarrow> map_of result k' = map_of (dict_store acc k v) k')"
        using Cons.IH [OF run _ fresh] Cons.prems by simp
      moreover from this Cons.prems have "map_of result k = Some v"
        by (simp add: map_of_dict_store)
      ultimately show ?thesis using Inr Some by (auto simp: map_of_dict_store)
    qed
  qed
qed

lemma compile_loop_total:
  "(\<And>k xs. k \<in> set ks \<Longrightarrow> dict_get properties k PNone \<noteq> PList xs) \<Longrightarrow>
   \<exists>result. compile_loop properties ks acc = Inr result"
proof (induction ks arbitrary: acc)
  case Nil
  then show ?case by simp
next
  case (Cons k ks)
  have "\<exists>r. convert_attribute k (dict_get properties k PNone) = Inr r"
    using Cons.prems [of k] by (cases "dict_get properties k PNone") auto
  then obtain r where r: "convert_attribute k (dict_get properties k PNone) = Inr r" ..
  show ?case
    using Cons.IH Cons.prems r by (cases r) auto
qed

lemma distinct_queue_attribute_list: "distinct queue_attribute_list"
  by (simp add: queue_attribute_list_def)

lemma lower_str_bool: "lower (str_bool b) = (if b then ''true'' else ''false'')"
  by (simp add: lower_def str_bool_def char_lower_def)

lemma json_loads_str_int: "json_loads (str_int i) = Some (PInt i)"
  using json_loads_json_dumps [of "PInt i"] by simp

lemma str_int_300: "str_int 300 = ''300''"
  by code_simp

lemmas test_defs = test_request_def test_sqs_def test_url_def test_gen_def

subsection \<open>Facts about the suffix\<close>

lemma fifo_suffix_once:
  "\<not> suffix ''.fifo'' base \<Longrightarrow> \<not> suffix ''.fifo.fifo'' (base @ ''.fifo'')"
proof -
  have "''.fifo.fifo'' = ''.fifo'' @ ''.fifo''" by simp
  then have "suffix ''.fifo.fifo'' (base @ ''.fifo'') = suffix ''.fifo'' base"
    by (simp only: same_suffix_suffix)
  then show "\<not> suffix ''.fifo'' base \<Longrightarrow> \<not> suffix ''.fifo.fifo'' (base @ ''.fifo'')"
    by simp
qed

lemma list_of_three: "length xs = Suc (Suc (Suc 0)) \<Longrightarrow> \<exists>a b c. xs = [a, b, c]"
  by (auto simp: length_Suc_conv)

lemma generated_name_cut:
  assumes "length uid = 8"
  shows "\<exists>p a b c. take (length (generate_default_name uid stack lid) - 5)
            (generate_default_name uid stack lid) = p @ [CHR ''-'', a, b, c]"
proof -
  define q where "q = take (63 - 2 - (length uid + length (take 24 lid))) stack @ ''-'' @ take 24 lid"
  have g: "generate_default_name uid stack lid = (q @ ''-'') @ uid"
    by (simp add: generate_default_name_def Let_def q_def)
  have "length (take 3 uid) = Suc (Suc (Suc 0))" using assms by simp
  from list_of_three [OF this] obtain a b c where t: "take 3 uid = [a, b, c]"
    by blast
  have "take (length ((q @ ''-'') @ uid) - 5) ((q @ ''-'') @ uid) = (q @ ''-'') @ take 3 uid"
    using assms by simp
  then show ?thesis unfolding g t by auto
qed

lemma cut_not_fifo: "\<not> suffix ''.fifo'' (p @ [CHR ''-'', a, b, c])"
proof
  assume "suffix ''.fifo'' (p @ [CHR ''-'', a, b, c])"
  then obtain zs where "p @ [CHR ''-'', a, b, c] = zs @ ''.fifo''"
    by (auto simp: suffix_def)
  then have "rev (p @ [CHR ''-'', a, b, c]) = rev (zs @ ''.fifo'')" by simp
  then show False by simp
qed

lemma generated_name_once:
  assumes "is_short_uid uid"
  shows "\<not> suffix ''.fifo.fifo''
           (take (length (generate_default_name uid stack lid) - 5)
              (generate_default_name uid stack lid) @ ''.fifo'')"
proof -
  from assms have "length uid = 8" by (simp add: is_short_uid_def)
  from generated_name_cut [OF this, of stack lid] obtain p a b c where
    "take (length (generate_default_name uid stack lid) - 5)
       (generate_default_name uid stack lid) = p @ [CHR ''-'', a, b, c]"
    by blast
  then show ?thesis
    using cut_not_fifo [of p a b c] fifo_suffix_once by metis
qed

subsection \<open>When \<^verbatim>\<open>update\<close> replaces the queue\<close>

text \<open>
  Claim C1, as stated, says that for every update request with a previous state
  \<^verbatim>\<open>shouldReplace\<close> is computed, and is true exactly if the desired \<^verbatim>\<open>QueueName\<close> or the
  desired \<^verbatim>\<open>FifoQueue\<close> (each defaulting to the previous value) differs from the previous
  one. It fails on a previous state without the key \<^verbatim>\<open>QueueName\<close>, because line 191
  subscripts the previous state and raises \<^verbatim>\<open>KeyError\<close>. Such a state is the model that
  the replacement path of \<^verbatim>\<open>update\<close> returns for a desired state that names no queue:
  below, a first update turns the queue into a FIFO queue and returns a model without
  \<^verbatim>\<open>QueueName\<close>; a second update, with that model as its previous state and a desired
  state that names the queue, should replace by the rule and ends in \<^verbatim>\<open>KeyError\<close>, with no
  call made.
\<close>

theorem should_replace_without_previous_name:
  "update test_gen
     (test_request [''FifoQueue'' \<mapsto> PBool True]
        (Some [''QueueName'' \<mapsto> PStr ''orders'', ''QueueUrl'' \<mapsto> PStr ''http://sqs/orders'']))
     ([''orders''], [])
     = (Inr (ProgressEvent SUCCESS
          [''FifoQueue'' \<mapsto> PBool True,
           ''QueueUrl'' \<mapsto> PStr ''http://sqs/stack-Queue-0a1.fifo'',
           ''Arn'' \<mapsto> PStr ''arn:aws:sqs:http://sqs/stack-Queue-0a1.fifo''] None),
        ([''stack-Queue-0a1.fifo''],
         [DeleteQueue (PStr ''http://sqs/orders''),
          CreateQueue (PStr ''stack-Queue-0a1.fifo'') None None,
          GetQueueAttributes (PStr ''http://sqs/stack-Queue-0a1.fifo'') [''QueueArn'']]))
   \<and> previous_state
        (test_request [''QueueName'' \<mapsto> PStr ''orders'', ''FifoQueue'' \<mapsto> PBool True]
          (Some [''FifoQueue'' \<mapsto> PBool True,
                 ''QueueUrl'' \<mapsto> PStr ''http://sqs/stack-Queue-0a1.fifo'',
                 ''Arn'' \<mapsto> PStr ''arn:aws:sqs:http://sqs/stack-Queue-0a1.fifo''])) \<noteq> None
   \<and> spec_should_replace [''QueueName'' \<mapsto> PStr ''orders'', ''FifoQueue'' \<mapsto> PBool True]
        [''FifoQueue'' \<mapsto> PBool True,
         ''QueueUrl'' \<mapsto> PStr ''http://sqs/stack-Queue-0a1.fifo'',
         ''Arn'' \<mapsto> PStr ''arn:aws:sqs:http://sqs/stack-Queue-0a1.fifo'']
   \<and> should_replace [''QueueName'' \<mapsto> PStr ''orders'', ''FifoQueue'' \<mapsto> PBool True]
        [''FifoQueue'' \<mapsto> PBool True,
         ''QueueUrl'' \<mapsto> PStr ''http://sqs/stack-Queue-0a1.fifo'',
         ''Arn'' \<mapsto> PStr ''arn:aws:sqs:http://sqs/stack-Queue-0a1.fifo'']
       = Inl (KeyError ''QueueName'')
   \<and> update test_gen
        (test_request [''QueueName'' \<mapsto> PStr ''orders'', ''FifoQueue'' \<mapsto> PBool True]
          (Some [''FifoQueue'' \<mapsto> PBool True,
                 ''QueueUrl'' \<mapsto> PStr ''http://sqs/stack-Queue-0a1.fifo'',
                 ''Arn'' \<mapsto> PStr ''arn:aws:sqs:http://sqs/stack-Queue-0a1.fifo'']))
        ([''stack-Queue-0a1.fifo''], [])
       = (Inl (KeyError ''QueueName''), ([''stack-Queue-0a1.fifo''], []))"
  by (simp add: should_replace_def spec_should_replace_def dict_item_def dict_get_def
        desired_value_def previous_value_def update_def Let_def call_defs test_defs
        default_queue_name_def)

text \<open>
  Claim C1, amended: for every update request whose previous state has a \<^verbatim>\<open>QueueName\<close>,
  \<^verbatim>\<open>shouldReplace\<close> is computed, and it is true if and only if the desired \<^verbatim>\<open>QueueName\<close>
  (the previous one when the desired state omits it) differs from the previous
  \<^verbatim>\<open>QueueName\<close>, or the desired \<^verbatim>\<open>FifoQueue\<close> (the previous value when the desired state
  omits it) differs from the previous \<^verbatim>\<open>FifoQueue\<close>.
\<close>

theorem should_replace_with_previous_name:
  "prev ''QueueName'' = Some name \<Longrightarrow>
   should_replace desired prev = Inr (spec_should_replace desired prev)"
  by (simp add: should_replace_def spec_should_replace_def dict_item_def dict_get_def
        desired_value_def previous_value_def split: option.splits)

text \<open>A changed \<^verbatim>\<open>FifoQueue\<close> asks for a replacement, a changed \<^verbatim>\<open>VisibilityTimeout\<close>
  does not.\<close>

theorem should_replace_with_previous_name_witness:
  "[''QueueName'' \<mapsto> PStr ''a'', ''FifoQueue'' \<mapsto> PBool False] ''QueueName'' = Some (PStr ''a'')
   \<and> should_replace [''QueueName'' \<mapsto> PStr ''a'', ''FifoQueue'' \<mapsto> PBool True]
        [''QueueName'' \<mapsto> PStr ''a'', ''FifoQueue'' \<mapsto> PBool False] = Inr True
   \<and> should_replace [''VisibilityTimeout'' \<mapsto> PInt 60]
        [''QueueName'' \<mapsto> PStr ''a'', ''FifoQueue'' \<mapsto> PBool False] = Inr False"
  using should_replace_with_previous_name [of
      "[''QueueName'' \<mapsto> PStr ''a'', ''FifoQueue'' \<mapsto> PBool False]" "PStr ''a''"
      "[''QueueName'' \<mapsto> PStr ''a'', ''FifoQueue'' \<mapsto> PBool True]"]
    should_replace_with_previous_name [of
      "[''QueueName'' \<mapsto> PStr ''a'', ''FifoQueue'' \<mapsto> PBool False]" "PStr ''a''"
      "[''VisibilityTimeout'' \<mapsto> PInt 60]"]
  by (simp add: spec_should_replace_def desired_value_def previous_value_def)

text \<open>
  Claim C2, as stated, says that every update request for which no replacement is
  required returns \<^verbatim>\<open>SUCCESS\<close> with the previous state. Line 191 reads
  \<^verbatim>\<open>previous_state["QueueName"]\<close> before line 198 is reached: on a previous state without
  that key, such as the model the replacement path returns for a desired state that
  names no queue, an update in which only \<^verbatim>\<open>VisibilityTimeout\<close> differs ends in \<^verbatim>\<open>KeyError\<close>.
\<close>

theorem update_without_replacement_no_previous_name:
  "previous_state
     (test_request [''FifoQueue'' \<mapsto> PBool True, ''VisibilityTimeout'' \<mapsto> PInt 60]
        (Some [''FifoQueue'' \<mapsto> PBool True,
               ''QueueUrl'' \<mapsto> PStr ''http://sqs/stack-Queue-0a1.fifo'',
               ''Arn'' \<mapsto> PStr ''arn:aws:sqs:http://sqs/stack-Queue-0a1.fifo''])) \<noteq> None
   \<and> \<not> spec_should_replace [''FifoQueue'' \<mapsto> PBool True, ''VisibilityTimeout'' \<mapsto> PInt 60]
        [''FifoQueue'' \<mapsto> PBool True,
         ''QueueUrl'' \<mapsto> PStr ''http://sqs/stack-Queue-0a1.fifo'',
         ''Arn'' \<mapsto> PStr ''arn:aws:sqs:http://sqs/stack-Queue-0a1.fifo'']
   \<and> update test_gen
        (test_request [''FifoQueue'' \<mapsto> PBool True, ''VisibilityTimeout'' \<mapsto> PInt 60]
           (Some [''FifoQueue'' \<mapsto> PBool True,
                  ''QueueUrl'' \<mapsto> PStr ''http://sqs/stack-Queue-0a1.fifo'',
                  ''Arn'' \<mapsto> PStr ''arn:aws:sqs:http://sqs/stack-Queue-0a1.fifo'']))
        ([''stack-Queue-0a1.fifo''], [])
       = (Inl (KeyError ''QueueName''), ([''stack-Queue-0a1.fifo''], []))"
  by (simp add: spec_should_replace_def desired_value_def previous_value_def
        update_def should_replace_def dict_item_def test_request_def)

text \<open>
  Claim C2, amended: an update request whose previous state has a \<^verbatim>\<open>QueueName\<close> and for
  which no replacement is required, the desired \<^verbatim>\<open>QueueName\<close> and \<^verbatim>\<open>FifoQueue\<close> being those
  of the previous state, returns \<^verbatim>\<open>SUCCESS\<close> with the previous state as its resource model,
  whatever else the desired state changes; the service is left as it was and no call is
  issued.
\<close>

theorem update_without_replacement:
  assumes "previous_state request = Some prev"
    and "prev ''QueueName'' = Some name"
    and "\<not> spec_should_replace (desired_state request) prev"
  shows "update gen request w = (Inr (ProgressEvent SUCCESS prev None), w)"
  using assms
  by (simp add: update_def should_replace_def dict_item_def dict_get_def
        spec_should_replace_def desired_value_def previous_value_def split: option.splits)

text \<open>Only \<^verbatim>\<open>VisibilityTimeout\<close> differs: the previous state comes back, with its old
  timeout.\<close>

theorem update_without_replacement_witness:
  "previous_state
     (test_request [''QueueName'' \<mapsto> PStr ''a'', ''VisibilityTimeout'' \<mapsto> PInt 60]
        (Some [''QueueName'' \<mapsto> PStr ''a'', ''VisibilityTimeout'' \<mapsto> PInt 30,
               ''QueueUrl'' \<mapsto> PStr ''http://sqs/a'']))
     = Some [''QueueName'' \<mapsto> PStr ''a'', ''VisibilityTimeout'' \<mapsto> PInt 30,
             ''QueueUrl'' \<mapsto> PStr ''http://sqs/a'']
   \<and> \<not> spec_should_replace [''QueueName'' \<mapsto> PStr ''a'', ''VisibilityTimeout'' \<mapsto> PInt 60]
        [''QueueName'' \<mapsto> PStr ''a'', ''VisibilityTimeout'' \<mapsto> PInt 30,
         ''QueueUrl'' \<mapsto> PStr ''http://sqs/a'']
   \<and> update test_gen
     (test_request [''QueueName'' \<mapsto> PStr ''a'', ''VisibilityTimeout'' \<mapsto> PInt 60]
        (Some [''QueueName'' \<mapsto> PStr ''a'', ''VisibilityTimeout'' \<mapsto> PInt 30,
               ''QueueUrl'' \<mapsto> PStr ''http://sqs/a'']))
     ([''a''], [])
     = (Inr (ProgressEvent SUCCESS
          [''QueueName'' \<mapsto> PStr ''a'', ''VisibilityTimeout'' \<mapsto> PInt 30,
           ''QueueUrl'' \<mapsto> PStr ''http://sqs/a''] None), ([''a''], []))"
proof -
  let ?d = "[''QueueName'' \<mapsto> PStr ''a'', ''VisibilityTimeout'' \<mapsto> PInt 60]"
  let ?p = "[''QueueName'' \<mapsto> PStr ''a'', ''VisibilityTimeout'' \<mapsto> PInt 30,
             ''QueueUrl'' \<mapsto> PStr ''http://sqs/a'']"
  have 1: "previous_state (test_request ?d (Some ?p)) = Some ?p"
    by (simp add: test_request_def)
  have 2: "?p ''QueueName'' = Some (PStr ''a'')" by simp
  have 3: "\<not> spec_should_replace (desired_state (test_request ?d (Some ?p))) ?p"
    by (simp add: spec_should_replace_def desired_value_def previous_value_def test_request_def)
  from update_without_replacement [OF 1 2 3, of test_gen "([''a''], [])"] 1 3
  show ?thesis by (simp add: test_request_def)
qed

subsection \<open>The name of a queue that is given none\<close>

text \<open>
  Claim C3, as stated, says that the name used for a queue that is given none is
  determined by the stack name and the logical resource id. The generated name ends in
  the random id that the helper draws at each call, and of its eight characters three
  are left in the name of a FIFO queue: the same create request, made twice, creates
  two queues of different names.
\<close>

theorem create_default_name_not_determined:
  "stack_name (test_request [''FifoQueue'' \<mapsto> PBool True] None) = ''stack''
   \<and> logical_resource_id (test_request [''FifoQueue'' \<mapsto> PBool True] None) = ''Queue''
   \<and> is_short_uid ''0a1b2c3d'' \<and> is_short_uid ''7e8f9a0b''
   \<and> snd (snd (create (generate_default_name ''0a1b2c3d'')
        (test_request [''FifoQueue'' \<mapsto> PBool True] None) ([], [])))
      = [CreateQueue (PStr ''stack-Queue-0a1.fifo'') (Some [(''FifoQueue'', ''true'')]) (Some []),
         GetQueueAttributes (PStr ''http://sqs/stack-Queue-0a1.fifo'') [''QueueArn'']]
   \<and> snd (snd (create (generate_default_name ''7e8f9a0b'')
        (test_request [''FifoQueue'' \<mapsto> PBool True] None) ([], [])))
      = [CreateQueue (PStr ''stack-Queue-7e8.fifo'') (Some [(''FifoQueue'', ''true'')]) (Some []),
         GetQueueAttributes (PStr ''http://sqs/stack-Queue-7e8.fifo'') [''QueueArn'']]
   \<and> ''stack-Queue-0a1.fifo'' \<noteq> ''stack-Queue-7e8.fifo''"
  by (simp add: create_def create_model_def Let_def dict_get_def dict_item_def call_defs
        test_defs generate_default_name_def is_short_uid_def default_queue_name_def
        compile_sqs_queue_attributes_def queue_attribute_list_def compile_tags_def
        lower_str_bool)

text \<open>
  Claim C3, amended: for a create request whose desired state has no \<^verbatim>\<open>QueueName\<close>
  (none, \<^verbatim>\<open>None\<close> or empty), the name stored in the model and passed to \<^verbatim>\<open>CreateQueue\<close> is
  determined by the stack name, the logical resource id, the truth of \<^verbatim>\<open>FifoQueue\<close> and the
  random id drawn by the name generator in that call: the generated name itself if
  \<^verbatim>\<open>FifoQueue\<close> is false, and otherwise the generated name with its last five characters
  replaced by \<^verbatim>\<open>.fifo\<close>, which ends in \<^verbatim>\<open>.fifo\<close> and only once.
\<close>

theorem create_default_name:
  assumes "\<not> py_truthy (dict_get (desired_state request) ''QueueName'' PNone)"
    and "is_short_uid uid"
    and "fifo = dict_get (desired_state request) ''FifoQueue'' PNone"
    and "g = generate_default_name uid (stack_name request) (logical_resource_id request)"
    and "name = default_queue_name (generate_default_name uid) (stack_name request)
                  (logical_resource_id request) fifo"
  shows "create_model (generate_default_name uid) request ''QueueName'' = Some (PStr name)
       \<and> (\<forall>c \<in> set (snd (snd (create (generate_default_name uid) request (s, [])))).
             \<forall>n a t. c = CreateQueue n a t \<longrightarrow> n = PStr name)
       \<and> (\<not> py_truthy fifo \<longrightarrow> name = g)
       \<and> (py_truthy fifo \<longrightarrow>
             name = take (length g - 5) g @ ''.fifo''
             \<and> suffix ''.fifo'' name
             \<and> \<not> suffix ''.fifo.fifo'' name)"
proof -
  have m: "create_model (generate_default_name uid) request ''QueueName'' = Some (PStr name)"
    using assms by (simp add: create_model_def Let_def dict_get_def)
  have calls: "\<forall>c \<in> set (snd (snd (create (generate_default_name uid) request (s, [])))).
             \<forall>n a t. c = CreateQueue n a t \<longrightarrow> n = PStr name"
    using m
    by (auto simp: create_def Let_def dict_item_def call_defs
        split: option.splits sum.splits prod.splits)
  have plain: "\<not> py_truthy fifo \<longrightarrow> name = g"
    using assms by (simp add: default_queue_name_def)
  have fifo: "py_truthy fifo \<longrightarrow>
             name = take (length g - 5) g @ ''.fifo''
             \<and> suffix ''.fifo'' name
             \<and> \<not> suffix ''.fifo.fifo'' name"
  proof
    assume t: "py_truthy fifo"
    with assms have n: "name = take (length g - 5) g @ ''.fifo''"
      by (simp add: default_queue_name_def Let_def)
    have "suffix ''.fifo'' name" unfolding n by (rule suffixI) simp
    moreover have "\<not> suffix ''.fifo.fifo'' name"
      unfolding n assms(4) by (rule generated_name_once [OF assms(2)])
    ultimately show "name = take (length g - 5) g @ ''.fifo''
             \<and> suffix ''.fifo'' name
             \<and> \<not> suffix ''.fifo.fifo'' name"
      using n by blast
  qed
  from m calls plain fifo show ?thesis by blast
qed

text \<open>The queue \<^verbatim>\<open>Jobs\<close> of a stack called \<^verbatim>\<open>orders.fifo\<close>.\<close>

theorem create_default_name_witness:
  "\<not> py_truthy (dict_get (desired_state
        ((test_request [''FifoQueue'' \<mapsto> PBool True] None)
           \<lparr>stack_name := ''orders.fifo'', logical_resource_id := ''Jobs''\<rparr>)) ''QueueName'' PNone)
   \<and> is_short_uid ''0a1b2c3d''
   \<and> generate_default_name ''0a1b2c3d'' ''orders.fifo'' ''Jobs'' = ''orders.fifo-Jobs-0a1b2c3d''
   \<and> create_model (generate_default_name ''0a1b2c3d'')
        ((test_request [''FifoQueue'' \<mapsto> PBool True] None)
           \<lparr>stack_name := ''orders.fifo'', logical_resource_id := ''Jobs''\<rparr>) ''QueueName''
       = Some (PStr ''orders.fifo-Jobs-0a1.fifo'')
   \<and> suffix ''.fifo'' ''orders.fifo-Jobs-0a1.fifo''
   \<and> \<not> suffix ''.fifo.fifo'' ''orders.fifo-Jobs-0a1.fifo''
   \<and> create_model (generate_default_name ''0a1b2c3d'')
        (test_request [''VisibilityTimeout'' \<mapsto> PInt 30] None) ''QueueName''
       = Some (PStr ''stack-Queue-0a1b2c3d'')"
proof -
  let ?r = "(test_request [''FifoQueue'' \<mapsto> PBool True] None)
           \<lparr>stack_name := ''orders.fifo'', logical_resource_id := ''Jobs''\<rparr>"
  have 1: "\<not> py_truthy (dict_get (desired_state ?r) ''QueueName'' PNone)"
    by (simp add: test_request_def dict_get_def)
  have u: "is_short_uid ''0a1b2c3d''" by (simp add: is_short_uid_def)
  have 2: "PBool True = dict_get (desired_state ?r) ''FifoQueue'' PNone"
    by (simp add: test_request_def dict_get_def)
  have 3: "''orders.fifo-Jobs-0a1b2c3d''
             = generate_default_name ''0a1b2c3d'' (stack_name ?r) (logical_resource_id ?r)"
    by (simp add: generate_default_name_def test_request_def)
  have 4: "''orders.fifo-Jobs-0a1.fifo''
             = default_queue_name (generate_default_name ''0a1b2c3d'') (stack_name ?r)
                 (logical_resource_id ?r) (PBool True)"
    by (simp add: default_queue_name_def generate_default_name_def test_request_def)
  let ?q = "test_request [''VisibilityTimeout'' \<mapsto> PInt 30] None"
  have 5: "\<not> py_truthy (dict_get (desired_state ?q) ''QueueName'' PNone)"
    by (simp add: test_request_def dict_get_def)
  have 6: "PNone = dict_get (desired_state ?q) ''FifoQueue'' PNone"
    by (simp add: test_request_def dict_get_def)
  have 7: "''stack-Queue-0a1b2c3d''
             = generate_default_name ''0a1b2c3d'' (stack_name ?q) (logical_resource_id ?q)"
    by (simp add: generate_default_name_def test_request_def)
  have 8: "''stack-Queue-0a1b2c3d''
             = default_queue_name (generate_default_name ''0a1b2c3d'') (stack_name ?q)
                 (logical_resource_id ?q) PNone"
    by (simp add: default_queue_name_def generate_default_name_def test_request_def)
  from create_default_name [OF 1 u 2 3 4, of "[]"] create_default_name [OF 5 u 6 7 8, of "[]"]
    1 u 3
  show ?thesis by (simp add: test_request_def)
qed

subsection \<open>Compiling the attributes\<close>

text \<open>
  Claim C4: attribute compilation returns a map whenever every declared attribute is
  \<^verbatim>\<open>None\<close>, a string, a boolean, a dictionary or an integer, and whenever it returns a
  map, the map has the declared attributes only, and for each of them: no entry if the
  value is \<^verbatim>\<open>None\<close> or missing; the string itself for a string; \<^verbatim>\<open>true\<close> or \<^verbatim>\<open>false\<close> for a
  boolean; for a dictionary the text of \<^verbatim>\<open>json.dumps\<close>, which read back as JSON is that
  dictionary; for an integer its decimal text, which read back is that integer.
\<close>

theorem compile_attributes_rendering:
  "((\<forall>k \<in> set queue_attribute_list. \<forall>xs. dict_get properties k PNone \<noteq> PList xs) \<longrightarrow>
      (\<exists>result. compile_sqs_queue_attributes properties = Inr result))
   \<and> (\<forall>result. compile_sqs_queue_attributes properties = Inr result \<longrightarrow>
        (\<forall>k. k \<notin> set queue_attribute_list \<longrightarrow> map_of result k = None)
        \<and> (\<forall>k \<in> set queue_attribute_list.
             case dict_get properties k PNone of
               PNone \<Rightarrow> map_of result k = None
             | PStr s \<Rightarrow> map_of result k = Some s
             | PBool b \<Rightarrow> map_of result k = Some (if b then ''true'' else ''false'')
             | PDict d \<Rightarrow>
                 (\<exists>text. map_of result k = Some text \<and> text = json_dumps (PDict d)
                    \<and> (wf_pyval (PDict d) \<longrightarrow> json_loads text = Some (PDict d)))
             | PInt i \<Rightarrow>
                 map_of result k = Some (str_int i) \<and> json_loads (str_int i) = Some (PInt i)
             | PList xs \<Rightarrow> False))"
proof (intro conjI impI allI)
  assume "\<forall>k \<in> set queue_attribute_list. \<forall>xs. dict_get properties k PNone \<noteq> PList xs"
  then show "\<exists>result. compile_sqs_queue_attributes properties = Inr result"
    unfolding compile_sqs_queue_attributes_def by (intro compile_loop_total) blast
next
  fix result k
  assume "compile_sqs_queue_attributes properties = Inr result"
    and "k \<notin> set queue_attribute_list"
  then show "map_of result k = None"
    using compile_loop_result [of properties queue_attribute_list "[]" result]
    by (simp add: compile_sqs_queue_attributes_def distinct_queue_attribute_list)
next
  fix result
  assume run: "compile_sqs_queue_attributes properties = Inr result"
  show "\<forall>k \<in> set queue_attribute_list.
             case dict_get properties k PNone of
               PNone \<Rightarrow> map_of result k = None
             | PStr s \<Rightarrow> map_of result k = Some s
             | PBool b \<Rightarrow> map_of result k = Some (if b then ''true'' else ''false'')
             | PDict d \<Rightarrow>
                 (\<exists>text. map_of result k = Some text \<and> text = json_dumps (PDict d)
                    \<and> (wf_pyval (PDict d) \<longrightarrow> json_loads text = Some (PDict d)))
             | PInt i \<Rightarrow>
                 map_of result k = Some (str_int i) \<and> json_loads (str_int i) = Some (PInt i)
             | PList xs \<Rightarrow> False"
  proof
    fix k assume k: "k \<in> set queue_attribute_list"
    have conv: "convert_attribute k (dict_get properties k PNone) = Inr (map_of result k)"
      using compile_loop_result [of properties queue_attribute_list "[]" result] run k
      by (simp add: compile_sqs_queue_attributes_def distinct_queue_attribute_list)
    show "case dict_get properties k PNone of
               PNone \<Rightarrow> map_of result k = None
             | PStr s \<Rightarrow> map_of result k = Some s
             | PBool b \<Rightarrow> map_of result k = Some (if b then ''true'' else ''false'')
             | PDict d \<Rightarrow>
                 (\<exists>text. map_of result k = Some text \<and> text = json_dumps (PDict d)
                    \<and> (wf_pyval (PDict d) \<longrightarrow> json_loads text = Some (PDict d)))
             | PInt i \<Rightarrow>
                 map_of result k = Some (str_int i) \<and> json_loads (str_int i) = Some (PInt i)
             | PList xs \<Rightarrow> False"
    proof (cases "dict_get properties k PNone")
      case PNone
      with conv show ?thesis by simp
    next
      case (PBool b)
      with conv show ?thesis by (simp add: lower_str_bool)
    next
      case (PInt i)
      with conv show ?thesis by (simp add: json_loads_str_int)
    next
      case (PStr s)
      with conv show ?thesis by simp
    next
      case (PList xs)
      with conv show ?thesis by simp
    next
      case (PDict d)
      with conv have "map_of result k = Some (json_dumps (PDict d))" by simp
      with PDict show ?thesis
        using json_loads_json_dumps [of "PDict d"] by simp
    qed
  qed
qed


text \<open>The example bag: \<^verbatim>\<open>300\<close> becomes the text \<^verbatim>\<open>300\<close>, \<^verbatim>\<open>True\<close> the text \<^verbatim>\<open>true\<close>, the
  redrive policy a text that reads back as the policy, and \<^verbatim>\<open>DelaySeconds\<close>, which is
  \<^verbatim>\<open>None\<close>, has no entry.\<close>

theorem compile_attributes_rendering_witness:
  "list_all (\<lambda>k. \<forall>xs. dict_get example_properties k PNone \<noteq> PList xs) queue_attribute_list
   \<and> (\<exists>result text.
         compile_sqs_queue_attributes example_properties = Inr result
         \<and> map_of result ''VisibilityTimeout'' = Some ''300''
         \<and> map_of result ''FifoQueue'' = Some ''true''
         \<and> map_of result ''ContentBasedDeduplication'' = Some ''false''
         \<and> map_of result ''KmsMasterKeyId'' = Some ''alias/k''
         \<and> map_of result ''DelaySeconds'' = None
         \<and> map_of result ''QueueName'' = None
         \<and> map_of result ''RedrivePolicy'' = Some text
         \<and> json_loads text =
             Some (PDict [(''deadLetterTargetArn'', PStr ''arn:aws:sqs:dlq''),
                          (''maxReceiveCount'', PInt 3)]))"
proof -
  have ok: "list_all (\<lambda>k. \<forall>xs. dict_get example_properties k PNone \<noteq> PList xs)
              queue_attribute_list"
    by (simp add: queue_attribute_list_def example_properties_def dict_get_def)
  then have "\<forall>k \<in> set queue_attribute_list. \<forall>xs. dict_get example_properties k PNone \<noteq> PList xs"
    by (simp add: list_all_iff)
  with compile_attributes_rendering [of example_properties]
  obtain result where run: "compile_sqs_queue_attributes example_properties = Inr result"
    by blast
  with compile_attributes_rendering [of example_properties]
  have other: "\<forall>k. k \<notin> set queue_attribute_list \<longrightarrow> map_of result k = None"
    and each: "\<forall>k \<in> set queue_attribute_list.
             case dict_get example_properties k PNone of
               PNone \<Rightarrow> map_of result k = None
             | PStr s \<Rightarrow> map_of result k = Some s
             | PBool b \<Rightarrow> map_of result k = Some (if b then ''true'' else ''false'')
             | PDict d \<Rightarrow>
                 (\<exists>text. map_of result k = Some text \<and> text = json_dumps (PDict d)
                    \<and> (wf_pyval (PDict d) \<longrightarrow> json_loads text = Some (PDict d)))
             | PInt i \<Rightarrow>
                 map_of result k = Some (str_int i) \<and> json_loads (str_int i) = Some (PInt i)
             | PList xs \<Rightarrow> False"
    by blast+
  have 1: "map_of result ''VisibilityTimeout'' = Some ''300''"
    using each [rule_format, of "''VisibilityTimeout''"]
    by (simp add: queue_attribute_list_def example_properties_def dict_get_def str_int_300)
  have 2: "map_of result ''FifoQueue'' = Some ''true''"
    using each [rule_format, of "''FifoQueue''"]
    by (simp add: queue_attribute_list_def example_properties_def dict_get_def)
  have 3: "map_of result ''ContentBasedDeduplication'' = Some ''false''"
    using each [rule_format, of "''ContentBasedDeduplication''"]
    by (simp add: queue_attribute_list_def example_properties_def dict_get_def)
  have 4: "map_of result ''KmsMasterKeyId'' = Some ''alias/k''"
    using each [rule_format, of "''KmsMasterKeyId''"]
    by (simp add: queue_attribute_list_def example_properties_def dict_get_def)
  have 5: "map_of result ''DelaySeconds'' = None"
    using each [rule_format, of "''DelaySeconds''"]
    by (simp add: queue_attribute_list_def example_properties_def dict_get_def)
  have 6: "map_of result ''QueueName'' = None"
    using other [rule_format, of "''QueueName''"]
    by (simp add: queue_attribute_list_def)
  have "\<exists>text. map_of result ''RedrivePolicy'' = Some text
           \<and> json_loads text =
             Some (PDict [(''deadLetterTargetArn'', PStr ''arn:aws:sqs:dlq''),
                          (''maxReceiveCount'', PInt 3)])"
    using each [rule_format, of "''RedrivePolicy''"]
    by (simp add: queue_attribute_list_def example_properties_def dict_get_def)
  with ok run 1 2 3 4 5 6 show ?thesis by blast
qed

text \<open>The map compiled from the example bag, as text.\<close>

lemma example_text:
  \<open>compile_sqs_queue_attributes example_properties =
     Inr [(''ContentBasedDeduplication'', ''false''), (''FifoQueue'', ''true''),
          (''KmsMasterKeyId'', ''alias/k''),
          (''RedrivePolicy'', ''{"deadLetterTargetArn": "arn:aws:sqs:dlq", "maxReceiveCount": 3}''),
          (''VisibilityTimeout'', ''300'')]\<close>
  by code_simp

text \<open>
  Claim C5: a declared attribute whose value is not \<^verbatim>\<open>None\<close>, a string, a boolean, a
  dictionary or an integer makes attribute compilation raise \<^verbatim>\<open>TypeError\<close>: no map is
  returned, with or without the attribute, and \<^verbatim>\<open>create\<close> ends in that error before any
  service call.
\<close>

theorem compile_rejects_unsupported_type:
  assumes "k \<in> set queue_attribute_list"
    and "desired_state request k = Some v"
    and "v \<noteq> PNone" and "\<forall>s. v \<noteq> PStr s" and "\<forall>b. v \<noteq> PBool b"
    and "\<forall>d. v \<noteq> PDict d" and "\<forall>i. v \<noteq> PInt i"
  shows "\<exists>msg. compile_sqs_queue_attributes (desired_state request) = Inl (TypeError msg)
           \<and> create gen request w = (Inl (TypeError msg), w)"
proof -
  from assms(3-7) obtain xs where v: "v = PList xs" by (cases v) auto
  from compile_loop_unsupported [OF assms(1), of "desired_state request" xs "[]"] assms(2) v
  obtain msg where
    msg: "compile_sqs_queue_attributes (desired_state request) = Inl (TypeError msg)"
    by (auto simp: compile_sqs_queue_attributes_def)
  then have "create gen request w = (Inl (TypeError msg), w)"
    by (simp add: create_def compile_create_model)
  with msg show ?thesis by blast
qed


text \<open>A list given for \<^verbatim>\<open>VisibilityTimeout\<close>.\<close>

theorem compile_rejects_unsupported_type_witness:
  "''VisibilityTimeout'' \<in> set queue_attribute_list
   \<and> (\<exists>msg. compile_sqs_queue_attributes [''VisibilityTimeout'' \<mapsto> PList [PInt 30]]
               = Inl (TypeError msg)
          \<and> create test_gen (test_request [''VisibilityTimeout'' \<mapsto> PList [PInt 30]] None)
               ([], []) = (Inl (TypeError msg), ([], [])))"
  using compile_rejects_unsupported_type [of "''VisibilityTimeout''"
      "test_request [''VisibilityTimeout'' \<mapsto> PList [PInt 30]] None" "PList [PInt 30]"
      test_gen "([], [])"]
  by (simp add: test_request_def queue_attribute_list_def)

subsection \<open>\<^verbatim>\<open>create\<close> and \<^verbatim>\<open>delete\<close>\<close>

text \<open>
  Claim C6: a create request whose \<^verbatim>\<open>CreateQueue\<close> call, made with the queue name, the
  compiled attributes and the tags, succeeds, and whose following \<^verbatim>\<open>GetQueueAttributes\<close>
  call for \<^verbatim>\<open>QueueArn\<close> on the returned URL succeeds, returns \<^verbatim>\<open>SUCCESS\<close> with a resource
  model whose \<^verbatim>\<open>QueueUrl\<close> is the URL that \<^verbatim>\<open>CreateQueue\<close> returned and whose \<^verbatim>\<open>Arn\<close> is the
  ARN that \<^verbatim>\<open>GetQueueAttributes\<close> returned, whatever the desired state held under these
  keys.
\<close>

theorem create_returns_service_identifiers:
  assumes "compile_sqs_queue_attributes (create_model gen request) = Inr attrs"
    and "compile_tags (create_model gen request) = Inr tgs"
    and "create_model gen request ''QueueName'' = Some name"
    and "create_queue (sqs request) name (Some attrs) (Some tgs) s = (Inr url, s1)"
    and "get_queue_attributes (sqs request) (PStr url) [''QueueArn''] s1 = (Inr arn, s2)"
  shows "\<exists>model.
           create gen request (s, log)
             = (Inr (ProgressEvent SUCCESS model (Some (custom_context request))),
                (s2, log @ [CreateQueue name (Some attrs) (Some tgs),
                            GetQueueAttributes (PStr url) [''QueueArn'']]))
           \<and> model = (create_model gen request)(''QueueUrl'' \<mapsto> PStr url, ''Arn'' \<mapsto> PStr arn)
           \<and> model ''QueueUrl'' = Some (PStr url)
           \<and> model ''Arn'' = Some (PStr arn)"
  using assms by (simp add: create_def Let_def dict_item_def call_defs)

text \<open>A desired state that brings a \<^verbatim>\<open>QueueUrl\<close> and an \<^verbatim>\<open>Arn\<close> of its own: the model
  returned has the service's.\<close>

theorem create_returns_service_identifiers_witness:
  "desired_state (test_request
       [''QueueName'' \<mapsto> PStr ''orders'', ''VisibilityTimeout'' \<mapsto> PInt 300,
        ''QueueUrl'' \<mapsto> PStr ''http://client/url'', ''Arn'' \<mapsto> PStr ''client-arn''] None)
     ''QueueUrl'' = Some (PStr ''http://client/url'')
   \<and> (\<exists>model.
        create test_gen
          (test_request
             [''QueueName'' \<mapsto> PStr ''orders'', ''VisibilityTimeout'' \<mapsto> PInt 300,
              ''QueueUrl'' \<mapsto> PStr ''http://client/url'', ''Arn'' \<mapsto> PStr ''client-arn''] None)
          ([], [])
          = (Inr (ProgressEvent SUCCESS model (Some ())),
             ([''orders''],
              [CreateQueue (PStr ''orders'') (Some [(''VisibilityTimeout'', ''300'')]) (Some []),
               GetQueueAttributes (PStr ''http://sqs/orders'') [''QueueArn'']]))
        \<and> model ''QueueUrl'' = Some (PStr ''http://sqs/orders'')
        \<and> model ''Arn'' = Some (PStr ''arn:aws:sqs:http://sqs/orders''))"
proof -
  let ?d = "[''QueueName'' \<mapsto> PStr ''orders'', ''VisibilityTimeout'' \<mapsto> PInt 300,
             ''QueueUrl'' \<mapsto> PStr ''http://client/url'', ''Arn'' \<mapsto> PStr ''client-arn'']"
  have m: "create_model test_gen (test_request ?d None) = ?d"
    by (simp add: create_model_def Let_def dict_get_def test_request_def)
  have 1: "compile_sqs_queue_attributes (create_model test_gen (test_request ?d None))
             = Inr [(''VisibilityTimeout'', ''300'')]"
    unfolding m
    by (simp add: compile_sqs_queue_attributes_def queue_attribute_list_def dict_get_def
          str_int_300)
  have 2: "compile_tags (create_model test_gen (test_request ?d None)) = Inr []"
    unfolding m by (simp add: compile_tags_def dict_get_def)
  have 3: "create_model test_gen (test_request ?d None) ''QueueName'' = Some (PStr ''orders'')"
    unfolding m by simp
  have 4: "create_queue (sqs (test_request ?d None)) (PStr ''orders'')
             (Some [(''VisibilityTimeout'', ''300'')]) (Some []) []
             = (Inr ''http://sqs/orders'', [''orders''])"
    by (simp add: test_defs)
  have 5: "get_queue_attributes (sqs (test_request ?d None)) (PStr ''http://sqs/orders'')
             [''QueueArn''] [''orders'']
             = (Inr ''arn:aws:sqs:http://sqs/orders'', [''orders''])"
    by (simp add: test_defs)
  from create_returns_service_identifiers [OF 1 2 3 4 5, of "[]"]
  show ?thesis
    by (simp add: test_request_def)
qed

text \<open>
  Claim C7: with a previous state that has a \<^verbatim>\<open>QueueName\<close>, a delete request whose
  \<^verbatim>\<open>GetQueueUrl\<close> call fails because the queue does not exist returns \<^verbatim>\<open>SUCCESS\<close>; on a
  service whose calls fail in no other way, \<^verbatim>\<open>delete\<close> returns \<^verbatim>\<open>SUCCESS\<close>, and returns it
  again when called a second time on what the first call left; a failure of
  \<^verbatim>\<open>GetQueueUrl\<close> or of \<^verbatim>\<open>DeleteQueue\<close> other than queue-does-not-exist is the outcome of
  \<^verbatim>\<open>delete\<close>.
\<close>

theorem delete_is_idempotent:
  assumes "previous_state request = Some prev"
    and "prev ''QueueName'' = Some name"
  shows "(get_queue_url (sqs request) name s = (Inl QueueDoesNotExist, s') \<longrightarrow>
            delete request (s, log)
              = (Inr (ProgressEvent SUCCESS (desired_state request) None),
                 (s', log @ [GetQueueUrl name])))
       \<and> ((\<forall>t m. fst (get_queue_url (sqs request) name t) \<noteq> Inl (OtherServiceError m))
            \<and> (\<forall>u t m. fst (delete_queue (sqs request) (PStr u) t) \<noteq> Inl (OtherServiceError m)) \<longrightarrow>
            fst (delete request w) = Inr (ProgressEvent SUCCESS (desired_state request) None)
            \<and> fst (delete request (snd (delete request w)))
                = Inr (ProgressEvent SUCCESS (desired_state request) None))
       \<and> (get_queue_url (sqs request) name s = (Inl (OtherServiceError m), s') \<longrightarrow>
            delete request (s, log)
              = (Inl (ServiceError (OtherServiceError m)), (s', log @ [GetQueueUrl name])))
       \<and> (get_queue_url (sqs request) name s = (Inr url, s')
            \<and> delete_queue (sqs request) (PStr url) s' = (Inl (OtherServiceError m), s'') \<longrightarrow>
            delete request (s, log)
              = (Inl (ServiceError (OtherServiceError m)),
                 (s'', log @ [GetQueueUrl name, DeleteQueue (PStr url)])))"
proof -
  have always: "fst (delete request v) = Inr (ProgressEvent SUCCESS (desired_state request) None)"
    if a: "\<forall>t m. fst (get_queue_url (sqs request) name t) \<noteq> Inl (OtherServiceError m)"
      and b: "\<forall>u t m. fst (delete_queue (sqs request) (PStr u) t) \<noteq> Inl (OtherServiceError m)"
    for v
  proof -
    obtain r1 t1 where g: "get_queue_url (sqs request) name (fst v) = (r1, t1)"
      by (cases "get_queue_url (sqs request) name (fst v)")
    show ?thesis
    proof (cases r1)
      case (Inl e)
      have "fst (get_queue_url (sqs request) name (fst v)) = Inl e"
        using g Inl by simp
      with a have "e = QueueDoesNotExist"
        by (cases e) auto
      with Inl g assms show ?thesis
        by (simp add: delete_def dict_item_def call_defs)
    next
      case (Inr url)
      obtain r2 t2 where d: "delete_queue (sqs request) (PStr url) t1 = (r2, t2)"
        by (cases "delete_queue (sqs request) (PStr url) t1")
      show ?thesis
      proof (cases r2)
        case (Inl e)
        have "fst (delete_queue (sqs request) (PStr url) t1) = Inl e"
          using d Inl by simp
        with b have "e = QueueDoesNotExist"
          by (cases e) auto
        with Inl Inr g d assms show ?thesis
          by (simp add: delete_def dict_item_def call_defs)
      next
        case (Inr u)
        with \<open>r1 = Inr url\<close> g d assms show ?thesis
          by (simp add: delete_def dict_item_def call_defs)
      qed
    qed
  qed
  show ?thesis
    using assms always [of w] always [of "snd (delete request w)"]
    by (simp add: delete_def dict_item_def call_defs)
qed


text \<open>On the stand-in: a queue that is not there; a queue that is there, deleted twice;
  a name the service refuses; a caller that may not delete.\<close>

theorem delete_is_idempotent_witness:
  "delete (test_request Map.empty (Some [''QueueName'' \<mapsto> PStr ''a''])) ([], [])
     = (Inr (ProgressEvent SUCCESS Map.empty None), ([], [GetQueueUrl (PStr ''a'')]))
   \<and> fst (delete (test_request Map.empty (Some [''QueueName'' \<mapsto> PStr ''a''])) ([''a''], []))
       = Inr (ProgressEvent SUCCESS Map.empty None)
   \<and> fst (delete (test_request Map.empty (Some [''QueueName'' \<mapsto> PStr ''a'']))
            (snd (delete (test_request Map.empty (Some [''QueueName'' \<mapsto> PStr ''a'']))
                    ([''a''], []))))
       = Inr (ProgressEvent SUCCESS Map.empty None)
   \<and> delete (test_request Map.empty (Some [''QueueName'' \<mapsto> PInt 5])) ([''a''], [])
       = (Inl (ServiceError (OtherServiceError ''InvalidParameterValue'')),
          ([''a''], [GetQueueUrl (PInt 5)]))
   \<and> delete ((test_request Map.empty (Some [''QueueName'' \<mapsto> PStr ''a'']))
               \<lparr>sqs := readonly_sqs\<rparr>) ([''a''], [])
       = (Inl (ServiceError (OtherServiceError ''AccessDenied'')),
          ([''a''], [GetQueueUrl (PStr ''a''), DeleteQueue (PStr ''http://sqs/a'')]))"
proof -
  let ?r = "test_request Map.empty (Some [''QueueName'' \<mapsto> PStr ''a''])"
  let ?p = "[''QueueName'' \<mapsto> PStr ''a'']"
  have p: "previous_state ?r = Some ?p" "?p ''QueueName'' = Some (PStr ''a'')"
    by (simp_all add: test_request_def)
  have gone: "get_queue_url (sqs ?r) (PStr ''a'') [] = (Inl QueueDoesNotExist, [])"
    by (simp add: test_defs)
  have only: "(\<forall>t m. fst (get_queue_url (sqs ?r) (PStr ''a'') t) \<noteq> Inl (OtherServiceError m))
       \<and> (\<forall>u t m. fst (delete_queue (sqs ?r) (PStr u) t) \<noteq> Inl (OtherServiceError m))"
    by (simp add: test_defs)
  have 1: "delete ?r ([], [])
     = (Inr (ProgressEvent SUCCESS Map.empty None), ([], [GetQueueUrl (PStr ''a'')]))"
    using delete_is_idempotent [OF p, of "[]" "[]" "[]"] gone
    by (simp add: test_request_def)
  have 2: "fst (delete ?r ([''a''], [])) = Inr (ProgressEvent SUCCESS Map.empty None)
      \<and> fst (delete ?r (snd (delete ?r ([''a''], []))))
          = Inr (ProgressEvent SUCCESS Map.empty None)"
    using delete_is_idempotent [OF p, of _ _ _ "([''a''], [])"] only
    by (simp add: test_request_def)
  let ?r5 = "test_request Map.empty (Some [''QueueName'' \<mapsto> PInt 5])"
  have p5: "previous_state ?r5 = Some [''QueueName'' \<mapsto> PInt 5]"
    "[''QueueName'' \<mapsto> PInt 5] ''QueueName'' = Some (PInt 5)"
    by (simp_all add: test_request_def)
  have bad: "get_queue_url (sqs ?r5) (PInt 5) [''a'']
      = (Inl (OtherServiceError ''InvalidParameterValue''), [''a''])"
    by (simp add: test_defs)
  have 3: "delete ?r5 ([''a''], [])
       = (Inl (ServiceError (OtherServiceError ''InvalidParameterValue'')),
          ([''a''], [GetQueueUrl (PInt 5)]))"
    using delete_is_idempotent [OF p5, of "[''a'']" "[''a'']" "[]" _ "''InvalidParameterValue''"] bad
    by simp
  let ?ro = "?r \<lparr>sqs := readonly_sqs\<rparr>"
  have po: "previous_state ?ro = Some ?p"
    by (simp add: test_request_def)
  have found: "get_queue_url (sqs ?ro) (PStr ''a'') [''a''] = (Inr ''http://sqs/a'', [''a''])"
    and denied: "delete_queue (sqs ?ro) (PStr ''http://sqs/a'') [''a'']
      = (Inl (OtherServiceError ''AccessDenied''), [''a''])"
    by (simp_all add: test_defs readonly_sqs_def)
  have 4: "delete ?ro ([''a''], [])
       = (Inl (ServiceError (OtherServiceError ''AccessDenied'')),
          ([''a''], [GetQueueUrl (PStr ''a''), DeleteQueue (PStr ''http://sqs/a'')]))"
    using delete_is_idempotent [OF po p(2), of "[''a'']" "[''a'']" "[]" _ "''AccessDenied''"
        "''http://sqs/a''" "[''a'']"] found denied
    by simp
  from 1 2 3 4 show ?thesis by blast
qed

subsection \<open>The replacement path of \<^verbatim>\<open>update\<close>\<close>

text \<open>
  A previous state is a model that an earlier \<^verbatim>\<open>create\<close> or \<^verbatim>\<open>update\<close> returned. Every model
  that \<^verbatim>\<open>create\<close> returns has a \<^verbatim>\<open>QueueUrl\<close> and an \<^verbatim>\<open>Arn\<close>, and \<^verbatim>\<open>update\<close> keeps that so.
\<close>

lemma create_model_has_identifiers:
  "fst (create gen request w) = Inr event \<Longrightarrow>
   \<exists>url arn. resource_model event ''QueueUrl'' = Some (PStr url)
     \<and> resource_model event ''Arn'' = Some (PStr arn)"
  by (auto simp: create_def Let_def call_defs
      split: sum.splits prod.splits)

lemma update_model_has_identifiers:
  "previous_state request = Some prev \<Longrightarrow>
   prev ''QueueUrl'' \<noteq> None \<Longrightarrow> prev ''Arn'' \<noteq> None \<Longrightarrow>
   fst (update gen request w) = Inr event \<Longrightarrow>
   resource_model event ''QueueUrl'' \<noteq> None \<and> resource_model event ''Arn'' \<noteq> None"
  by (auto simp: update_def Let_def call_defs
      split: sum.splits prod.splits if_splits)





text \<open>
  Claim C9: an update request without a previous state fails with the
  \<^verbatim>\<open>AssertionError\<close> of line 188 before any service call, the service and the record of
  calls being as before; with a previous state, \<^verbatim>\<open>update\<close> never ends in that error.
\<close>

theorem update_requires_previous_state:
  "(previous_state request = None \<longrightarrow> update gen request w = (Inl AssertionError, w)) \<and>
   (previous_state request \<noteq> None \<longrightarrow> fst (update gen request w) \<noteq> Inl AssertionError)"
  by (auto simp: update_def Let_def should_replace_def dict_item_def call_defs
      split: option.splits sum.splits prod.splits if_splits)

theorem update_requires_previous_state_witness:
  "previous_state (test_request [''QueueName'' \<mapsto> PStr ''b''] None) = None
   \<and> update test_gen (test_request [''QueueName'' \<mapsto> PStr ''b''] None) ([''a''], [])
       = (Inl AssertionError, ([''a''], []))
   \<and> previous_state (test_request [''QueueName'' \<mapsto> PStr ''b'']
         (Some [''QueueName'' \<mapsto> PStr ''a'', ''QueueUrl'' \<mapsto> PStr ''http://sqs/a''])) \<noteq> None
   \<and> fst (update test_gen
         (test_request [''QueueName'' \<mapsto> PStr ''b'']
            (Some [''QueueName'' \<mapsto> PStr ''a'', ''QueueUrl'' \<mapsto> PStr ''http://sqs/a'']))
         ([''a''], [])) \<noteq> Inl AssertionError"
  using update_requires_previous_state [of
      "test_request [''QueueName'' \<mapsto> PStr ''b''] None" test_gen "([''a''], [])"]
    update_requires_previous_state [of
      "test_request [''QueueName'' \<mapsto> PStr ''b'']
         (Some [''QueueName'' \<mapsto> PStr ''a'', ''QueueUrl'' \<mapsto> PStr ''http://sqs/a''])"
      test_gen "([''a''], [])"]
  by (simp add: test_request_def)

text \<open>
  Claim C10: in an update request for which replacement is required, every
  \<^verbatim>\<open>CreateQueue\<close> call names the queue by the default name generated from the stack name
  and the logical resource id (with the \<^verbatim>\<open>.fifo\<close> rule), and the call is made once the old
  queue is deleted; the \<^verbatim>\<open>QueueName\<close> of the desired state plays no part in it.
\<close>

theorem update_names_replacement_by_default:
  assumes "previous_state request = Some prev"
    and "should_replace (desired_state request) prev = Inr True"
  shows "(\<forall>c \<in> set (snd (snd (update gen request (s, [])))).
            \<forall>n a t. c = CreateQueue n a t \<longrightarrow>
              n = PStr (default_queue_name gen (stack_name request) (logical_resource_id request)
                          (dict_get (desired_state request) ''FifoQueue'' PNone)))
       \<and> (\<forall>old_url s1. prev ''QueueUrl'' = Some old_url
              \<and> delete_queue (sqs request) old_url s = (Inr (), s1) \<longrightarrow>
            CreateQueue
              (PStr (default_queue_name gen (stack_name request) (logical_resource_id request)
                       (dict_get (desired_state request) ''FifoQueue'' PNone))) None None
              \<in> set (snd (snd (update gen request (s, [])))))"
  using assms
  by (auto simp: update_def Let_def dict_item_def call_defs
      split: option.splits sum.splits prod.splits)


text \<open>The desired state asks for \<^verbatim>\<open>orders-v2\<close>; the queue created is not called so.\<close>

theorem update_names_replacement_by_default_witness:
  "desired_state (test_request [''QueueName'' \<mapsto> PStr ''orders-v2'']
       (Some [''QueueName'' \<mapsto> PStr ''orders'', ''QueueUrl'' \<mapsto> PStr ''http://sqs/orders'']))
     ''QueueName'' = Some (PStr ''orders-v2'')
   \<and> should_replace [''QueueName'' \<mapsto> PStr ''orders-v2'']
        [''QueueName'' \<mapsto> PStr ''orders'', ''QueueUrl'' \<mapsto> PStr ''http://sqs/orders'']
       = Inr True
   \<and> CreateQueue (PStr ''stack-Queue-0a1b2c3d'') None None
       \<in> set (snd (snd (update test_gen
            (test_request [''QueueName'' \<mapsto> PStr ''orders-v2'']
               (Some [''QueueName'' \<mapsto> PStr ''orders'',
                      ''QueueUrl'' \<mapsto> PStr ''http://sqs/orders'']))
            ([''orders''], []))))
   \<and> (\<forall>a t. CreateQueue (PStr ''orders-v2'') a t
       \<notin> set (snd (snd (update test_gen
            (test_request [''QueueName'' \<mapsto> PStr ''orders-v2'']
               (Some [''QueueName'' \<mapsto> PStr ''orders'',
                      ''QueueUrl'' \<mapsto> PStr ''http://sqs/orders'']))
            ([''orders''], [])))))"
proof -
  let ?d = "[''QueueName'' \<mapsto> PStr ''orders-v2'']"
  let ?p = "[''QueueName'' \<mapsto> PStr ''orders'', ''QueueUrl'' \<mapsto> PStr ''http://sqs/orders'']"
  let ?r = "test_request ?d (Some ?p)"
  have 1: "previous_state ?r = Some ?p" by (simp add: test_request_def)
  have 2: "should_replace (desired_state ?r) ?p = Inr True"
    by (simp add: should_replace_def dict_item_def dict_get_def test_request_def)
  have n: "default_queue_name test_gen (stack_name ?r) (logical_resource_id ?r)
             (dict_get (desired_state ?r) ''FifoQueue'' PNone) = ''stack-Queue-0a1b2c3d''"
    by (simp add: default_queue_name_def dict_get_def test_defs)
  have d: "?p ''QueueUrl'' = Some (PStr ''http://sqs/orders'')
      \<and> delete_queue (sqs ?r) (PStr ''http://sqs/orders'') [''orders''] = (Inr (), [])"
    by (simp add: test_defs)
  note t = update_names_replacement_by_default [OF 1 2, of test_gen "[''orders'']", unfolded n]
  from t d have a: "CreateQueue (PStr ''stack-Queue-0a1b2c3d'') None None
       \<in> set (snd (snd (update test_gen ?r ([''orders''], []))))"
    by blast
  from t have b: "\<forall>a t. CreateQueue (PStr ''orders-v2'') a t
       \<notin> set (snd (snd (update test_gen ?r ([''orders''], []))))"
    by fastforce
  from a b 2 show ?thesis by (simp add: test_request_def)
qed

end
